theory Spec2Isabelle
  imports Complex_Main
begin

section \<open>Numbers\<close>

text \<open>
  The sources compute with JavaScript numbers, that is, with doubles. The values are
  embedded as reals; the special values appear only where the code uses them as
  sentinels (\<^verbatim>\<open>Number.MAX_VALUE\<close>, \<^verbatim>\<open>Infinity\<close>, the index \<^verbatim>\<open>-1\<close>).

  In the colour conversion, the palette pairing and the point-cloud steps the operations
  are the exact ones: \<^verbatim>\<open>Math.pow\<close> on a positive base is \<open>powr\<close>, \<^verbatim>\<open>Math.sqrt\<close> is
  \<open>sqrt\<close>, \<^verbatim>\<open>Math.round\<close> is \<open>round\<close> (both round halves upwards).

  In the nearest-colour lookups the outcome depends on which computed distances are
  equal, and that depends on how each operation rounds. There the arithmetic is a
  parameter: a record of the operations the lookups use.
\<close>

definition MAX_VALUE :: real where
  \<comment> \<open>\<^verbatim>\<open>Number.MAX_VALUE\<close>, the largest finite double\<close>
  "MAX_VALUE = 2 ^ 1024 - 2 ^ 971"

section \<open>Colours (src/lib/colors.ts)\<close>

record RGB =
  rgb_r :: real
  rgb_g :: real
  rgb_b :: real

record Lab =
  lab_l :: real
  lab_a :: real
  lab_b :: real

subsection \<open>Nearest colour lookup\<close>

text \<open>
  The operations of the lookups, as the machine computes them: \<^verbatim>\<open>-\<close>, \<^verbatim>\<open>+\<close>, \<^verbatim>\<open>*\<close>,
  \<^verbatim>\<open>Math.pow\<close>, \<^verbatim>\<open>Math.sqrt\<close> and \<^verbatim>\<open>Math.abs\<close>. The comparison \<^verbatim>\<open><\<close> of two doubles
  is exact and stays the order of the reals.
\<close>

record arith =
  fsub :: "real \<Rightarrow> real \<Rightarrow> real"
  fadd :: "real \<Rightarrow> real \<Rightarrow> real"
  fmul :: "real \<Rightarrow> real \<Rightarrow> real"
  fpow :: "real \<Rightarrow> real \<Rightarrow> real"
  fsqrt :: "real \<Rightarrow> real"
  fabs :: "real \<Rightarrow> real"

text \<open>
  The three lookups share one loop: \<^verbatim>\<open>closestIndex = 0\<close>,
  \<^verbatim>\<open>smallestDistance = Number.MAX_VALUE\<close>, then for \<open>i\<close> from \<open>0\<close> to the end of the
  palette the pair is replaced by \<open>(i, distance)\<close> when \<^verbatim>\<open>distance < smallestDistance\<close>.
  \<open>closestLoop\<close> is that loop, the distance of entry \<open>i\<close> being given as a function of \<open>i\<close>;
  each lookup supplies its own distance expression.
\<close>

definition closestLoop :: "(nat \<Rightarrow> real) \<Rightarrow> nat list \<Rightarrow> nat \<times> real \<Rightarrow> nat \<times> real" where
  "closestLoop distance is st =
     fold (\<lambda>i (closestIndex, smallestDistance).
             if distance i < smallestDistance then (i, distance i)
             else (closestIndex, smallestDistance)) is st"

definition findClosestColorIndex :: "arith \<Rightarrow> Lab \<Rightarrow> Lab list \<Rightarrow> nat" where
  "findClosestColorIndex ar labColor paletteLab =
     fst (closestLoop
            (\<lambda>i. fsqrt ar
                   (fadd ar
                      (fadd ar
                         (fpow ar (fsub ar (lab_l labColor) (lab_l (paletteLab ! i))) 2)
                         (fpow ar (fsub ar (lab_a labColor) (lab_a (paletteLab ! i))) 2))
                      (fpow ar (fsub ar (lab_b labColor) (lab_b (paletteLab ! i))) 2)))
            [0..<length paletteLab] (0, MAX_VALUE))"

definition findClosestColorIndexAB :: "arith \<Rightarrow> Lab \<Rightarrow> Lab list \<Rightarrow> nat" where
  "findClosestColorIndexAB ar labColor paletteLab =
     fst (closestLoop
            (\<lambda>i. let distance =
                       fsqrt ar
                         (fadd ar
                            (fadd ar
                               (fpow ar (fsub ar (lab_l labColor) (lab_l (paletteLab ! i))) 2)
                               (fpow ar (fsub ar (lab_a labColor) (lab_a (paletteLab ! i))) 2))
                            (fpow ar (fsub ar (lab_b labColor) (lab_b (paletteLab ! i))) 2))
                 in fadd ar (fmul ar distance 0.5)
                      (fmul ar 2
                         (fsqrt ar
                            (fadd ar
                               (fpow ar (fsub ar (lab_a labColor) (lab_a (paletteLab ! i))) 2)
                               (fpow ar (fsub ar (lab_b labColor) (lab_b (paletteLab ! i))) 2)))))
            [0..<length paletteLab] (0, MAX_VALUE))"

definition findClosestColorIndexL :: "arith \<Rightarrow> Lab \<Rightarrow> Lab list \<Rightarrow> nat" where
  "findClosestColorIndexL ar labColor paletteLab =
     fst (closestLoop
            (\<lambda>i. let distance =
                       fsqrt ar
                         (fadd ar
                            (fadd ar
                               (fpow ar (fsub ar (lab_l labColor) (lab_l (paletteLab ! i))) 2)
                               (fpow ar (fsub ar (lab_a labColor) (lab_a (paletteLab ! i))) 2))
                            (fpow ar (fsub ar (lab_b labColor) (lab_b (paletteLab ! i))) 2))
                 in fadd ar (fmul ar distance 0.5)
                      (fabs ar (fsub ar (lab_l labColor) (lab_l (paletteLab ! i)))))
            [0..<length paletteLab] (0, MAX_VALUE))"

text \<open>
  What the properties below use of double arithmetic. As long as the exact result of an
  operation has magnitude at most \<open>2\<^sup>1\<^sup>0\<^sup>2\<^sup>0\<close>, so that nothing overflows, the computed
  result is in magnitude at most twice the exact one plus one; a computed square and a
  computed sum of non-negative numbers are not negative. Rounding to the nearest double
  meets this with a wide margin, and so does the exact arithmetic.
\<close>

definition doubleArithmetic :: "arith \<Rightarrow> bool" where
  "doubleArithmetic ar =
     (\<forall>x y.
        (\<bar>x - y\<bar> \<le> 2 ^ 1020 \<longrightarrow> \<bar>fsub ar x y\<bar> \<le> 2 * \<bar>x - y\<bar> + 1) \<and>
        (\<bar>x + y\<bar> \<le> 2 ^ 1020 \<longrightarrow> \<bar>fadd ar x y\<bar> \<le> 2 * \<bar>x + y\<bar> + 1) \<and>
        (0 \<le> x \<and> 0 \<le> y \<longrightarrow> 0 \<le> fadd ar x y) \<and>
        (\<bar>x * y\<bar> \<le> 2 ^ 1020 \<longrightarrow> \<bar>fmul ar x y\<bar> \<le> 2 * \<bar>x * y\<bar> + 1) \<and>
        (x ^ 2 \<le> 2 ^ 1020 \<longrightarrow> 0 \<le> fpow ar x 2 \<and> fpow ar x 2 \<le> 2 * x ^ 2 + 1) \<and>
        (0 \<le> x \<and> x \<le> 2 ^ 1020 \<longrightarrow> \<bar>fsqrt ar x\<bar> \<le> 2 * sqrt x + 1) \<and>
        (\<bar>x\<bar> \<le> 2 ^ 1020 \<longrightarrow> \<bar>fabs ar x\<bar> \<le> 2 * \<bar>x\<bar> + 1))"

definition exactArithmetic :: arith where
  "exactArithmetic =
     \<lparr>fsub = (\<lambda>x y. x - y), fadd = (\<lambda>x y. x + y), fmul = (\<lambda>x y. x * y),
      fpow = (\<lambda>x y. if y = 2 then x ^ 2 else x powr y), fsqrt = sqrt, fabs = abs\<rparr>"

text \<open>
  A Lab colour whose components have magnitude at most \<open>2\<^sup>5\<^sup>0\<^sup>0\<close>: every colour that
  \<open>rgbToLab\<close> produces is one, by a very wide margin, and no distance between two of them
  overflows.
\<close>

definition labInRange :: "Lab \<Rightarrow> bool" where
  "labInRange c = (\<bar>lab_l c\<bar> \<le> 2 ^ 500 \<and> \<bar>lab_a c\<bar> \<le> 2 ^ 500 \<and> \<bar>lab_b c\<bar> \<le> 2 ^ 500)"

text \<open>The three distances as computed, as functions of the query and one candidate.\<close>

definition distFull :: "arith \<Rightarrow> Lab \<Rightarrow> Lab \<Rightarrow> real" where
  "distFull ar p c =
     fsqrt ar
       (fadd ar
          (fadd ar (fpow ar (fsub ar (lab_l p) (lab_l c)) 2)
             (fpow ar (fsub ar (lab_a p) (lab_a c)) 2))
          (fpow ar (fsub ar (lab_b p) (lab_b c)) 2))"

definition distAB :: "arith \<Rightarrow> Lab \<Rightarrow> Lab \<Rightarrow> real" where
  "distAB ar p c =
     fadd ar (fmul ar (distFull ar p c) 0.5)
       (fmul ar 2
          (fsqrt ar
             (fadd ar (fpow ar (fsub ar (lab_a p) (lab_a c)) 2)
                (fpow ar (fsub ar (lab_b p) (lab_b c)) 2))))"

definition distL :: "arith \<Rightarrow> Lab \<Rightarrow> Lab \<Rightarrow> real" where
  "distL ar p c =
     fadd ar (fmul ar (distFull ar p c) 0.5) (fabs ar (fsub ar (lab_l p) (lab_l c)))"

text \<open>
  \<open>firstMinimum d n r\<close>: among the indices below \<open>n\<close>, \<open>r\<close> attains the least value of \<open>d\<close>
  and every index before \<open>r\<close> has a strictly larger value; so \<open>r\<close> is the smallest index
  at which the minimum is attained.
\<close>

definition firstMinimum :: "(nat \<Rightarrow> real) \<Rightarrow> nat \<Rightarrow> nat \<Rightarrow> bool" where
  "firstMinimum d n r = (r < n \<and> (\<forall>j<n. d r \<le> d j) \<and> (\<forall>j<r. d r < d j))"

subsection \<open>RGB and Lab\<close>

definition t1 :: real where
  "t1 = 6 / 29"

definition t2 :: real where
  "t2 = 3 * t1 * t1"

definition t3 :: real where
  "t3 = t1 * t1 * t1"

definition rgb2lrgb :: "real \<Rightarrow> real" where
  "rgb2lrgb x =
     (let x2 = x / 255
      in if x2 \<le> 0.04045 then x2 / 12.92 else ((x2 + 0.055) / 1.055) powr 2.4)"

definition xyz2lab :: "real \<Rightarrow> real" where
  "xyz2lab t = (if t > t3 then t powr (1 / 3) else t / t2 + 4 / 29)"

definition rgbToLab :: "RGB \<Rightarrow> Lab" where
  "rgbToLab color =
     (let r = rgb2lrgb (rgb_r color);
          g = rgb2lrgb (rgb_g color);
          b = rgb2lrgb (rgb_b color);
          y = xyz2lab (0.2225045 * r + 0.7168786 * g + 0.0606169 * b);
          x = (if r = g \<and> g = b then y
               else xyz2lab ((0.4360747 * r + 0.3850649 * g + 0.1430804 * b) / 0.96422));
          z = (if r = g \<and> g = b then y
               else xyz2lab ((0.0139322 * r + 0.0971045 * g + 0.7141733 * b) / 0.82521))
      in \<lparr>lab_l = 116 * y - 16, lab_a = 500 * (x - y), lab_b = 200 * (y - z)\<rparr>)"

definition lrgb2rgb :: "real \<Rightarrow> real" where
  \<comment> \<open>\<^verbatim>\<open>Math.round(...) || 0\<close>: a rounded value of zero is replaced by \<open>0\<close>\<close>
  "lrgb2rgb x =
     (let v = of_int (round (255 * (if x \<le> 0.0031308 then 12.92 * x
                                    else 1.055 * x powr (1 / 2.4) - 0.055)))
      in if v = 0 then 0 else v)"

definition lab2xyz :: "real \<Rightarrow> real" where
  "lab2xyz t = (if t > t1 then t * t * t else t2 * (t - 4 / 29))"

definition labToRgb :: "Lab \<Rightarrow> RGB" where
  "labToRgb c =
     (let l = lab_l c; a = lab_a c; b = lab_b c;
          baseY = (l + 16) / 116;
          x = 0.96422 * lab2xyz (baseY + a / 500);
          y = lab2xyz baseY;
          z = 0.82521 * lab2xyz (baseY - b / 200)
      in \<lparr>rgb_r = lrgb2rgb (3.1338561 * x - 1.6168667 * y - 0.4906146 * z),
          rgb_g = lrgb2rgb (- 0.9787684 * x + 1.9161415 * y + 0.033454 * z),
          rgb_b = lrgb2rgb (0.0719453 * x - 0.2289914 * y + 1.4052427 * z)\<rparr>)"

subsection \<open>Palette pairing\<close>

definition colorDistance :: "RGB \<Rightarrow> RGB \<Rightarrow> real" where
  "colorDistance color1 color2 =
     (let lab1 = rgbToLab color1;
          lab2 = rgbToLab color2;
          deltaL = lab_l lab1 - lab_l lab2;
          deltaA = lab_a lab1 - lab_a lab2;
          deltaB = lab_b lab1 - lab_b lab2
      in sqrt (deltaL ^ 2 + deltaA ^ 2 + deltaB ^ 2))"

definition createDistanceMatrix :: "RGB list \<Rightarrow> RGB list \<Rightarrow> real list list" where
  "createDistanceMatrix colors1 colors2 =
     map (\<lambda>i. map (\<lambda>j. colorDistance (colors1 ! i) (colors2 ! j)) [0..<length colors2])
       [0..<length colors1]"

text \<open>
  \<open>sortColorsByPairing\<close> hands the matrix to \<^verbatim>\<open>munkres\<close>, imported from the package
  \<^verbatim>\<open>munkres-js\<close>, and maps every pair \<^verbatim>\<open>[row, column]\<close> of the answer to
  \<^verbatim>\<open>colors2[column]\<close>. The solver is a parameter of the embedding; it returns its pairs
  or fails (\<open>Inl\<close>), and a failure of the solver is a failure of \<open>sortColorsByPairing\<close>.
\<close>

definition sortColorsByPairing ::
  "(real list list \<Rightarrow> 'e + (nat \<times> nat) list) \<Rightarrow> RGB list \<Rightarrow> RGB list \<Rightarrow> 'e + RGB list" where
  "sortColorsByPairing munkres colors1 colors2 =
     (let distanceMatrix = createDistanceMatrix colors1 colors2
      in case munkres distanceMatrix of
           Inl e \<Rightarrow> Inl e
         | Inr results \<Rightarrow> Inr (map (\<lambda>result. colors2 ! snd result) results))"

text \<open>
  Modelled from the spec: the solver \<^verbatim>\<open>munkres\<close> of the package \<^verbatim>\<open>munkres-js\<close>, which is
  not among the sources. On an empty cost matrix the specification demands an explicit
  failure. On a matrix of \<open>m\<close> rows and \<open>n\<close> columns it asks for a matching that pairs each
  row with at most one column and each column with at most one row, has \<open>min m n\<close> pairs,
  and has the least total cost among all such matchings. The specification does not say
  in which order the pairs are returned.
\<close>

definition assignment :: "nat \<Rightarrow> nat \<Rightarrow> (nat \<times> nat) list \<Rightarrow> bool" where
  "assignment m n res =
     (length res = min m n \<and> distinct (map fst res) \<and> distinct (map snd res) \<and>
      (\<forall>(i, j)\<in>set res. i < m \<and> j < n))"

definition totalCost :: "real list list \<Rightarrow> (nat \<times> nat) list \<Rightarrow> real" where
  "totalCost cost res = sum_list (map (\<lambda>(i, j). cost ! i ! j) res)"

definition optimalAssignment :: "real list list \<Rightarrow> nat \<Rightarrow> nat \<Rightarrow> (nat \<times> nat) list \<Rightarrow> bool" where
  "optimalAssignment cost m n res =
     (assignment m n res \<and>
      (\<forall>res'. assignment m n res' \<longrightarrow> totalCost cost res \<le> totalCost cost res'))"

definition solverContract :: "(real list list \<Rightarrow> 'e + (nat \<times> nat) list) \<Rightarrow> real list list \<Rightarrow> bool"
  where
  "solverContract munkres cost =
     (if cost = [] then (\<exists>e. munkres cost = Inl e)
      else (\<exists>res. munkres cost = Inr res \<and>
                  optimalAssignment cost (length cost) (length (hd cost)) res))"

text \<open>The total Lab distance of a list of pairs of palette indices.\<close>

definition pairingCost :: "RGB list \<Rightarrow> RGB list \<Rightarrow> (nat \<times> nat) list \<Rightarrow> real" where
  "pairingCost colors1 colors2 res =
     sum_list (map (\<lambda>(i, j). colorDistance (colors1 ! i) (colors2 ! j)) res)"

section \<open>Point clouds (the precomputation script)\<close>

text \<open>
  A point cloud is a \<^verbatim>\<open>Float32Array\<close> of interleaved coordinates: vertex \<open>i\<close> occupies the
  positions \<open>i * 3\<close>, \<open>i * 3 + 1\<close> and \<open>i * 3 + 2\<close>. It is embedded as a list of reals.
  The script only ever builds arrays of whole vertices (a length divisible by three); on
  other arrays the source reads \<^verbatim>\<open>undefined\<close>, which the embedding does not represent, and
  the theorems below are stated for arrays of whole vertices.

  A variable that starts at \<^verbatim>\<open>Infinity\<close> or \<^verbatim>\<open>-Infinity\<close> and is then lowered or
  raised by comparisons is a \<open>real option\<close>, \<open>None\<close> being the initial infinity.
\<close>

definition below :: "real \<Rightarrow> real option \<Rightarrow> bool" where
  \<comment> \<open>\<^verbatim>\<open>y < minY\<close>, where \<open>minY\<close> may still be \<^verbatim>\<open>Infinity\<close>\<close>
  "below y m = (case m of None \<Rightarrow> True | Some v \<Rightarrow> y < v)"

definition above :: "real \<Rightarrow> real option \<Rightarrow> bool" where
  \<comment> \<open>\<^verbatim>\<open>y > maxY\<close>, where \<open>maxY\<close> may still be \<^verbatim>\<open>-Infinity\<close>\<close>
  "above y m = (case m of None \<Rightarrow> True | Some v \<Rightarrow> v < y)"

text \<open>The indices visited by \<^verbatim>\<open>for (let i = start; i < n; i += step)\<close>.\<close>

function indicesFrom :: "nat \<Rightarrow> nat \<Rightarrow> nat \<Rightarrow> nat list" where
  "indicesFrom i n step =
     (if i < n \<and> 0 < step then i # indicesFrom (i + step) n step else [])"
  by pat_completeness auto
termination
  by (relation "measure (\<lambda>(i, n, step). n - i)") auto

subsection \<open>trimBottomRow\<close>

definition trimBottomRow :: "real list \<Rightarrow> real list" where
  "trimBottomRow positions =
     (if length positions < 3 then positions
      else
        let (minY, maxY) =
              fold (\<lambda>i (minY, maxY).
                      let y = positions ! i;
                          minY = (if below y minY then Some y else minY);
                          maxY = (if above y maxY then Some y else maxY)
                      in (minY, maxY))
                   (indicesFrom 1 (length positions) 3) (None, None)
        in case (minY, maxY) of
             (Some minY, Some maxY) \<Rightarrow>
               let height = maxY - minY;
                   threshold = minY + height * 0.01;
                   kept = fold (\<lambda>i kept.
                                  let y = positions ! (i + 1)
                                  in if y \<le> threshold then kept
                                     else kept @ [positions ! i, positions ! (i + 1),
                                                  positions ! (i + 2)])
                               (indicesFrom 0 (length positions) 3) []
               in if length kept \<ge> 3 then kept else positions
           | _ \<Rightarrow> positions)"

subsection \<open>clampPositions\<close>

text \<open>
  The copying loop of \<open>clampPositions\<close>:
  \<^verbatim>\<open>for (let i = 0; i < vertCount && ri < result.length / 3; i += stride)\<close>, where
  \<open>vertCount\<close> is a third of the length of \<open>positions\<close>.
\<close>

function clampLoop :: "real list \<Rightarrow> nat \<Rightarrow> nat \<Rightarrow> nat \<Rightarrow> real list \<Rightarrow> real list" where
  "clampLoop positions stride i ri result =
     (if i * 3 < length positions \<and> ri * 3 < length result then
        let pi = i * 3;
            result = result[ri * 3 := positions ! pi];
            result = result[ri * 3 + 1 := positions ! (pi + 1)];
            result = result[ri * 3 + 2 := positions ! (pi + 2)]
        in clampLoop positions stride (i + stride) (ri + 1) result
      else result)"
  by pat_completeness auto
termination
  by (relation "measure (\<lambda>(positions, stride, i, ri, result). length result - ri * 3)") auto

definition clampPositions :: "real list \<Rightarrow> nat \<Rightarrow> real list" where
  "clampPositions positions maxVertices =
     (let vertCount = real (length positions) / 3 in
      if vertCount \<le> real maxVertices then positions
      else if maxVertices = 0 then []
        \<comment> \<open>the stride is \<^verbatim>\<open>Infinity\<close>, \<open>keptVertices\<close> is \<open>0\<close> and the result is empty\<close>
      else
        let stride = nat \<lceil>vertCount / real maxVertices\<rceil>;
            keptVertices = nat \<lfloor>vertCount / real stride\<rfloor>;
            result = replicate (keptVertices * 3) 0
        in clampLoop positions stride 0 0 result)"

subsection \<open>adjustVertexCount\<close>

definition orZero :: "real list \<Rightarrow> int \<Rightarrow> real" where
  \<comment> \<open>\<^verbatim>\<open>arr[i] || 0\<close>: an index outside the array reads \<^verbatim>\<open>undefined\<close>, which gives \<open>0\<close>\<close>
  "orZero arr i = (if 0 \<le> i \<and> i < int (length arr) then arr ! nat i else 0)"

function padLoop :: "nat \<Rightarrow> real \<Rightarrow> real \<Rightarrow> real \<Rightarrow> nat \<Rightarrow> real list \<Rightarrow> real list" where
  "padLoop finalLength lastX lastY lastZ pIndex adjustedPositions =
     (if pIndex < finalLength then
        padLoop finalLength lastX lastY lastZ (pIndex + 3)
          (adjustedPositions[pIndex := lastX, pIndex + 1 := lastY, pIndex + 2 := lastZ])
      else adjustedPositions)"
  by pat_completeness auto
termination
  by (relation "measure (\<lambda>(finalLength, lastX, lastY, lastZ, pIndex, a). finalLength - pIndex)")
    auto

definition adjustVertexCount :: "real list \<Rightarrow> nat \<Rightarrow> real list" where
  "adjustVertexCount positions finalCount =
     (let finalLength = finalCount * 3;
          adjustedPositions = replicate finalLength 0;
          copyLength = min (length positions) finalLength;
          adjustedPositions =
            fold (\<lambda>i adjusted. adjusted[i := positions ! i]) [0..<copyLength] adjustedPositions
      in if real copyLength / 3 < real finalCount then
           let lastX = orZero adjustedPositions (int copyLength - 3);
               lastY = orZero adjustedPositions (int copyLength - 2);
               lastZ = orZero adjustedPositions (int copyLength - 1)
           in padLoop finalLength lastX lastY lastZ copyLength adjustedPositions
             \<comment> \<open>\<open>pIndex\<close> starts at \<open>loadedVertices * 3\<close>, which is \<open>copyLength\<close>\<close>
         else adjustedPositions)"

subsection \<open>reorderToNearest\<close>

datatype error =
    EqualLengthRequired
      \<comment> \<open>\<^verbatim>\<open>Error('reorderToNearest requires equal-length position arrays.')\<close>\<close>
  | InvalidArrayLength
      \<comment> \<open>the \<^verbatim>\<open>RangeError\<close> of \<^verbatim>\<open>new Array(len)\<close> when \<open>len\<close> is not a whole number\<close>

type_synonym bounds =
  "real option \<times> real option \<times> real option \<times> real option \<times> real option \<times> real option"

definition updateBounds :: "real list \<Rightarrow> bounds \<Rightarrow> bounds" where
  "updateBounds arr bnds =
     fold (\<lambda>i (minX, minY, minZ, maxX, maxY, maxZ).
             let x = arr ! i; y = arr ! (i + 1); z = arr ! (i + 2)
             in (if below x minX then Some x else minX,
                 if below y minY then Some y else minY,
                 if below z minZ then Some z else minZ,
                 if above x maxX then Some x else maxX,
                 if above y maxY then Some y else maxY,
                 if above z maxZ then Some z else maxZ))
          (indicesFrom 0 (length arr) 3) bnds"

definition extent :: "real option \<Rightarrow> real option \<Rightarrow> real option" where
  \<comment> \<open>\<^verbatim>\<open>max - min\<close>; with the initial infinities the difference is \<^verbatim>\<open>-Infinity\<close>, again \<open>None\<close>\<close>
  "extent mx mn = (case (mx, mn) of (Some a, Some b) \<Rightarrow> Some (a - b) | _ \<Rightarrow> None)"

definition maxDimension :: "real option \<Rightarrow> real option \<Rightarrow> real option \<Rightarrow> real option" where
  \<comment> \<open>\<^verbatim>\<open>Math.max(sizeX, sizeY, sizeZ)\<close>\<close>
  "maxDimension sx sy sz =
     (case (sx, sy, sz) of (Some a, Some b, Some c) \<Rightarrow> Some (max (max a b) c) | _ \<Rightarrow> None)"

definition cellSizeOf :: "real option \<Rightarrow> real" where
  \<comment> \<open>\<^verbatim>\<open>maxDim > 0 ? maxDim / 20 : 1\<close>\<close>
  "cellSizeOf maxDim = (case maxDim of Some d \<Rightarrow> (if d > 0 then d / 20 else 1) | None \<Rightarrow> 1)"

definition finite_bound :: "real option \<Rightarrow> real" where
  \<comment> \<open>a bound as read inside the loops over vertices: once there is a vertex, it has been set\<close>
  "finite_bound m = (case m of Some v \<Rightarrow> v | None \<Rightarrow> 0)"

text \<open>
  The frame of the grid: \<open>minX\<close>, \<open>minY\<close>, \<open>minZ\<close> and \<open>cellSize\<close>. A bucket key
  \<^verbatim>\<open>`${ix}|${iy}|${iz}`\<close> is the triple of the three integers.
\<close>

type_synonym frame = "real \<times> real \<times> real \<times> real"
type_synonym cell = "int \<times> int \<times> int"

definition cellOf :: "frame \<Rightarrow> real \<Rightarrow> real \<Rightarrow> real \<Rightarrow> cell" where
  "cellOf fr x y z =
     (case fr of (minX, minY, minZ, cellSize) \<Rightarrow>
        (\<lfloor>(x - minX) / cellSize\<rfloor>, \<lfloor>(y - minY) / cellSize\<rfloor>, \<lfloor>(z - minZ) / cellSize\<rfloor>))"

definition cellOfVertex :: "frame \<Rightarrow> real list \<Rightarrow> nat \<Rightarrow> cell" where
  "cellOfVertex fr arr i = cellOf fr (arr ! (i * 3)) (arr ! (i * 3 + 1)) (arr ! (i * 3 + 2))"

text \<open>The state that the closures of \<open>reorderToNearest\<close> share and mutate.\<close>

record grid =
  buckets :: "cell \<Rightarrow> nat list option"
  available :: "bool list"
  reordered :: "real list"

definition fillBuckets :: "frame \<Rightarrow> real list \<Rightarrow> nat \<Rightarrow> (cell \<Rightarrow> nat list option)" where
  "fillBuckets fr targetPositions len =
     fold (\<lambda>i bs.
             let key = cellOfVertex fr targetPositions i
             in case bs key of None \<Rightarrow> bs(key \<mapsto> [i]) | Some arr \<Rightarrow> bs(key \<mapsto> arr @ [i]))
          [0..<len] Map.empty"

definition removeFromBucket ::
  "frame \<Rightarrow> real list \<Rightarrow> nat \<Rightarrow> (cell \<Rightarrow> nat list option) \<Rightarrow> (cell \<Rightarrow> nat list option)" where
  "removeFromBucket fr targetPositions idx bs =
     (let key = cellOfVertex fr targetPositions idx
      in case bs key of None \<Rightarrow> bs | Some arr \<Rightarrow> bs(key \<mapsto> remove1 idx arr))"

text \<open>
  The pair \<open>(bestIdx, bestDist2)\<close> of \<open>findNearest\<close> starts as \<open>(-1, Infinity)\<close> and both are
  only ever assigned together: \<open>None\<close> is that initial pair. \<open>visit\<close> is the body run for one
  candidate index, in the ring search as in the linear scan.
\<close>

definition visit ::
  "real list \<Rightarrow> bool list \<Rightarrow> real \<Rightarrow> real \<Rightarrow> real \<Rightarrow> nat \<Rightarrow> (nat \<times> real) option \<Rightarrow> (nat \<times> real) option"
  where
  "visit targetPositions avail rx ry rz idx best =
     (if \<not> (idx < length avail \<and> avail ! idx) then best
      else
        let tx = targetPositions ! (idx * 3);
            ty = targetPositions ! (idx * 3 + 1);
            tz = targetPositions ! (idx * 3 + 2);
            dist2 = (tx - rx) ^ 2 + (ty - ry) ^ 2 + (tz - rz) ^ 2
        in case best of
             None \<Rightarrow> Some (idx, dist2)
           | Some (bestIdx, bestDist2) \<Rightarrow>
               if dist2 < bestDist2 then Some (idx, dist2) else best)"

definition offsets :: "int \<Rightarrow> (int \<times> int \<times> int) list" where
  \<comment> \<open>the nested loops over \<open>dx\<close>, \<open>dy\<close>, \<open>dz\<close> from \<open>-r\<close> to \<open>r\<close>\<close>
  "offsets r =
     concat (map (\<lambda>dx. concat (map (\<lambda>dy. map (\<lambda>dz. (dx, dy, dz)) [-r..r]) [-r..r])) [-r..r])"

definition findNearest ::
  "frame \<Rightarrow> real list \<Rightarrow> nat \<Rightarrow> grid \<Rightarrow> real \<Rightarrow> real \<Rightarrow> real \<Rightarrow> nat option" where
  "findNearest fr targetPositions len g rx ry rz =
     (case cellOf fr rx ry rz of (cx, cy, cz) \<Rightarrow>
        let best =
              fold (\<lambda>r best.
                      if best = None then
                        fold (\<lambda>(dx, dy, dz) best.
                                case buckets g (cx + dx, cy + dy, cz + dz) of
                                  None \<Rightarrow> best
                                | Some arr \<Rightarrow>
                                    fold (visit targetPositions (available g) rx ry rz) arr best)
                             (offsets r) best
                      else best)
                   [0, 1, 2] None;
            best =
              (if best = None then
                 fold (visit targetPositions (available g) rx ry rz) [0..<len] None
               else best)
        in map_option fst best)"

definition assignStep :: "frame \<Rightarrow> real list \<Rightarrow> real list \<Rightarrow> nat \<Rightarrow> nat \<Rightarrow> grid \<Rightarrow> grid" where
  "assignStep fr referencePositions targetPositions len i g =
     (let rx = referencePositions ! (i * 3);
          ry = referencePositions ! (i * 3 + 1);
          rz = referencePositions ! (i * 3 + 2)
      in case findNearest fr targetPositions len g rx ry rz of
           None \<Rightarrow> g
         | Some nearestIdx \<Rightarrow>
             g\<lparr>available := (available g)[nearestIdx := False],
               buckets := removeFromBucket fr targetPositions nearestIdx (buckets g),
               reordered :=
                 (reordered g)
                   [i * 3 := targetPositions ! (nearestIdx * 3),
                    i * 3 + 1 := targetPositions ! (nearestIdx * 3 + 1),
                    i * 3 + 2 := targetPositions ! (nearestIdx * 3 + 2)]\<rparr>)"

definition frameOf :: "real list \<Rightarrow> real list \<Rightarrow> frame" where
  "frameOf referencePositions targetPositions =
     (case updateBounds targetPositions
             (updateBounds referencePositions (None, None, None, None, None, None)) of
        (minX, minY, minZ, maxX, maxY, maxZ) \<Rightarrow>
          let sizeX = extent maxX minX;
              sizeY = extent maxY minY;
              sizeZ = extent maxZ minZ;
              maxDim = maxDimension sizeX sizeY sizeZ;
              cellSize = cellSizeOf maxDim
          in (finite_bound minX, finite_bound minY, finite_bound minZ, cellSize))"

definition initialGrid :: "frame \<Rightarrow> real list \<Rightarrow> nat \<Rightarrow> grid" where
  "initialGrid fr targetPositions len =
     \<lparr>buckets = fillBuckets fr targetPositions len,
      available = replicate len True,
      reordered = replicate (length targetPositions) 0\<rparr>"

definition reorderToNearest :: "real list \<Rightarrow> real list \<Rightarrow> error + real list" where
  "reorderToNearest referencePositions targetPositions =
     (if length targetPositions \<noteq> length referencePositions then Inl EqualLengthRequired
      else if length referencePositions mod 3 \<noteq> 0 then Inl InvalidArrayLength
      else
        let len = length referencePositions div 3;
            fr = frameOf referencePositions targetPositions
        in Inr (reordered
                  (fold (assignStep fr referencePositions targetPositions len) [0..<len]
                     (initialGrid fr targetPositions len))))"

text \<open>
  The target index that \<open>findNearest\<close> returns in each pass of the main loop, in the order
  of the reference indices (\<open>None\<close> where it returns \<open>-1\<close>).
\<close>

fun chosen :: "frame \<Rightarrow> real list \<Rightarrow> real list \<Rightarrow> nat \<Rightarrow> nat list \<Rightarrow> grid \<Rightarrow> nat option list" where
  "chosen fr referencePositions targetPositions len [] g = []"
| "chosen fr referencePositions targetPositions len (i # is) g =
     findNearest fr targetPositions len g
       (referencePositions ! (i * 3)) (referencePositions ! (i * 3 + 1))
       (referencePositions ! (i * 3 + 2))
     # chosen fr referencePositions targetPositions len is
         (assignStep fr referencePositions targetPositions len i g)"

definition nearestIndices :: "real list \<Rightarrow> real list \<Rightarrow> nat option list" where
  "nearestIndices referencePositions targetPositions =
     (let len = length referencePositions div 3;
          fr = frameOf referencePositions targetPositions
      in chosen fr referencePositions targetPositions len [0..<len]
           (initialGrid fr targetPositions len))"

text \<open>The three coordinates of vertex \<open>i\<close>, and the vertices of an array.\<close>

definition vertex :: "real list \<Rightarrow> nat \<Rightarrow> real list" where
  "vertex arr i = [arr ! (i * 3), arr ! (i * 3 + 1), arr ! (i * 3 + 2)]"

definition vertices :: "real list \<Rightarrow> real list list" where
  "vertices arr = map (vertex arr) [0..<length arr div 3]"

text \<open>
  The decimation as the specification words it: every \<open>stride\<close>-th point of the input, in
  the original order, that is the vertices whose index is a multiple of \<open>stride\<close>.
\<close>

definition everyStrideth :: "real list \<Rightarrow> nat \<Rightarrow> real list" where
  "everyStrideth positions stride =
     concat (map (vertex positions)
               (filter (\<lambda>i. i mod stride = 0) [0..<length positions div 3]))"

declare indicesFrom.simps [simp del] clampLoop.simps [simp del] padLoop.simps [simp del]

section \<open>Properties of the nearest colour lookup\<close>

lemma closestLoop_snoc:
  "closestLoop d (is @ [i]) st =
     (let (ci, sd) = closestLoop d is st in if d i < sd then (i, d i) else (ci, sd))"
  by (simp add: closestLoop_def split: prod.splits)

lemma closestLoop_invariant:
  "case closestLoop d [0..<n] (0, M) of (ci, sd) \<Rightarrow>
     (\<forall>j<n. sd \<le> d j) \<and>
     ((sd = M \<and> ci = 0) \<or> (ci < n \<and> sd = d ci \<and> sd < M \<and> (\<forall>j<ci. d ci < d j)))"
proof (induction n)
  case 0
  show ?case by (simp add: closestLoop_def)
next
  case (Suc n)
  obtain ci sd where st: "closestLoop d [0..<n] (0, M) = (ci, sd)"
    by (cases "closestLoop d [0..<n] (0, M)")
  from Suc st have below: "\<forall>j<n. sd \<le> d j"
    and shape: "(sd = M \<and> ci = 0) \<or> (ci < n \<and> sd = d ci \<and> sd < M \<and> (\<forall>j<ci. d ci < d j))"
    by auto
  show ?case
  proof (cases "d n < sd")
    case True
    have "\<forall>j<Suc n. d n \<le> d j"
      using below True by (auto simp: less_Suc_eq)
    moreover have "d n < M"
      using shape True by auto
    moreover have "\<forall>j<n. d n < d j"
      using below True by fastforce
    ultimately show ?thesis
      using True st by (simp add: closestLoop_snoc)
  next
    case False
    have "\<forall>j<Suc n. sd \<le> d j"
      using below False by (auto simp: less_Suc_eq)
    then show ?thesis
      using False st shape by (auto simp: closestLoop_snoc)
  qed
qed

lemma closestLoop_firstMinimum:
  assumes "i < n" and "d i < M"
  shows "firstMinimum d n (fst (closestLoop d [0..<n] (0, M)))"
proof -
  obtain ci sd where st: "closestLoop d [0..<n] (0, M) = (ci, sd)"
    by (cases "closestLoop d [0..<n] (0, M)")
  from closestLoop_invariant [where d=d and n=n and M=M] st have below: "\<forall>j<n. sd \<le> d j"
    and shape: "(sd = M \<and> ci = 0) \<or> (ci < n \<and> sd = d ci \<and> sd < M \<and> (\<forall>j<ci. d ci < d j))"
    by auto
  from below assms have "sd < M" by fastforce
  with shape have "ci < n \<and> sd = d ci \<and> (\<forall>j<ci. d ci < d j)" by auto
  with below st show ?thesis by (simp add: firstMinimum_def)
qed

lemma exactArithmetic_double: "doubleArithmetic exactArithmetic"
  by (simp add: doubleArithmetic_def exactArithmetic_def)

lemma within:
  fixes r e B C :: real
  assumes "r \<le> 2 * e + 1" "e \<le> B" "2 * B + 1 \<le> C"
  shows "r \<le> C"
  using assms by linarith

lemma fsub_bound:
  assumes "doubleArithmetic ar" "\<bar>x\<bar> \<le> 2 ^ 500" "\<bar>y\<bar> \<le> 2 ^ 500"
  shows "\<bar>fsub ar x y\<bar> \<le> 2 ^ 503"
proof -
  have "\<bar>x - y\<bar> \<le> 2 ^ 500 + 2 ^ 500" using assms(2,3) by linarith
  then have d: "\<bar>x - y\<bar> \<le> 2 ^ 501" by simp
  then have "\<bar>x - y\<bar> \<le> 2 ^ 1020" by simp
  then have "\<bar>fsub ar x y\<bar> \<le> 2 * \<bar>x - y\<bar> + 1"
    using assms(1) by (simp add: doubleArithmetic_def)
  then show ?thesis using d by (rule within) simp
qed

lemma fpow_bound:
  assumes "doubleArithmetic ar" "\<bar>d\<bar> \<le> 2 ^ 503"
  shows "0 \<le> fpow ar d 2 \<and> fpow ar d 2 \<le> 2 ^ 1008"
proof -
  have "d ^ 2 = \<bar>d\<bar> ^ 2" by simp
  also have "\<dots> \<le> (2 ^ 503) ^ 2" using assms(2) by (intro power_mono) simp_all
  finally have sq: "d ^ 2 \<le> (2 :: real) ^ 1006" by simp
  then have "d ^ 2 \<le> (2 :: real) ^ 1020" by simp
  then have r: "0 \<le> fpow ar d 2 \<and> fpow ar d 2 \<le> 2 * d ^ 2 + 1"
    using assms(1) by (simp add: doubleArithmetic_def)
  then have "fpow ar d 2 \<le> 2 * d ^ 2 + 1" by simp
  then have "fpow ar d 2 \<le> 2 ^ 1008" using sq by (rule within) simp
  with r show ?thesis by simp
qed

lemma fadd_squares:
  assumes "doubleArithmetic ar" "0 \<le> u" "u \<le> 2 ^ 1008" "0 \<le> v" "v \<le> 2 ^ 1008"
  shows "0 \<le> fadd ar u v \<and> fadd ar u v \<le> 2 ^ 1011"
proof -
  have "\<bar>u + v\<bar> \<le> 2 ^ 1008 + 2 ^ 1008" using assms(2-5) by linarith
  then have sum: "\<bar>u + v\<bar> \<le> 2 ^ 1009" by simp
  then have "\<bar>u + v\<bar> \<le> 2 ^ 1020" by simp
  then have "\<bar>fadd ar u v\<bar> \<le> 2 * \<bar>u + v\<bar> + 1"
    using assms(1) by (simp add: doubleArithmetic_def)
  then have "\<bar>fadd ar u v\<bar> \<le> 2 ^ 1011" using sum by (rule within) simp
  moreover have "0 \<le> fadd ar u v"
    using assms(1,2,4) by (simp add: doubleArithmetic_def)
  ultimately show ?thesis by simp
qed

lemma fadd_bound:
  assumes "doubleArithmetic ar" "0 \<le> u" "u \<le> 2 ^ 1011" "0 \<le> v" "v \<le> 2 ^ 1011"
  shows "0 \<le> fadd ar u v \<and> fadd ar u v \<le> 2 ^ 1014"
proof -
  have "\<bar>u + v\<bar> \<le> 2 ^ 1011 + 2 ^ 1011" using assms(2-5) by linarith
  then have sum: "\<bar>u + v\<bar> \<le> 2 ^ 1012" by simp
  then have "\<bar>u + v\<bar> \<le> 2 ^ 1020" by simp
  then have "\<bar>fadd ar u v\<bar> \<le> 2 * \<bar>u + v\<bar> + 1"
    using assms(1) by (simp add: doubleArithmetic_def)
  then have "\<bar>fadd ar u v\<bar> \<le> 2 ^ 1014" using sum by (rule within) simp
  moreover have "0 \<le> fadd ar u v"
    using assms(1,2,4) by (simp add: doubleArithmetic_def)
  ultimately show ?thesis by simp
qed

lemma fsqrt_bound:
  assumes "doubleArithmetic ar" "0 \<le> s" "s \<le> 2 ^ 1014"
  shows "\<bar>fsqrt ar s\<bar> \<le> 2 ^ 509"
proof -
  have "s \<le> 2 ^ 1020" using assms(3) by simp
  then have r: "\<bar>fsqrt ar s\<bar> \<le> 2 * sqrt s + 1"
    using assms(1,2) by (simp add: doubleArithmetic_def)
  have "sqrt s \<le> sqrt ((2 ^ 507) ^ 2)"
    using assms(3) by (intro real_sqrt_le_mono) simp
  then have "sqrt s \<le> 2 ^ 507" by simp
  with r show ?thesis by (rule within) simp
qed

lemma fmul_bound:
  assumes "doubleArithmetic ar" "\<bar>x * y\<bar> \<le> 2 ^ 510"
  shows "\<bar>fmul ar x y\<bar> \<le> 2 ^ 512"
proof -
  have "\<bar>x * y\<bar> \<le> 2 ^ 1020" using assms(2) by simp
  then have "\<bar>fmul ar x y\<bar> \<le> 2 * \<bar>x * y\<bar> + 1"
    using assms(1) by (simp add: doubleArithmetic_def)
  then show ?thesis using assms(2) by (rule within) simp
qed

lemma fabs_bound:
  assumes "doubleArithmetic ar" "\<bar>x\<bar> \<le> 2 ^ 503"
  shows "\<bar>fabs ar x\<bar> \<le> 2 ^ 505"
proof -
  have "\<bar>x\<bar> \<le> 2 ^ 1020" using assms(2) by simp
  then have "\<bar>fabs ar x\<bar> \<le> 2 * \<bar>x\<bar> + 1"
    using assms(1) by (simp add: doubleArithmetic_def)
  then show ?thesis using assms(2) by (rule within) simp
qed

lemma fadd_magnitude:
  assumes "doubleArithmetic ar" "\<bar>u\<bar> \<le> 2 ^ 512" "\<bar>v\<bar> \<le> 2 ^ 512"
  shows "\<bar>fadd ar u v\<bar> \<le> 2 ^ 515"
proof -
  have "\<bar>u + v\<bar> \<le> 2 ^ 512 + 2 ^ 512" using assms(2,3) by linarith
  then have sum: "\<bar>u + v\<bar> \<le> 2 ^ 513" by simp
  then have "\<bar>u + v\<bar> \<le> 2 ^ 1020" by simp
  then have "\<bar>fadd ar u v\<bar> \<le> 2 * \<bar>u + v\<bar> + 1"
    using assms(1) by (simp add: doubleArithmetic_def)
  then show ?thesis using sum by (rule within) simp
qed

lemma below_sentinel: "(2 :: real) ^ 515 < MAX_VALUE"
  by (simp add: MAX_VALUE_def)

lemma squared_difference_bound:
  assumes "doubleArithmetic ar" "\<bar>x\<bar> \<le> 2 ^ 500" "\<bar>y\<bar> \<le> 2 ^ 500"
  shows "0 \<le> fpow ar (fsub ar x y) 2 \<and> fpow ar (fsub ar x y) 2 \<le> 2 ^ 1008"
  using assms by (intro fpow_bound fsub_bound)

lemma labInRange_components:
  assumes "labInRange c"
  shows "\<bar>lab_l c\<bar> \<le> 2 ^ 500" "\<bar>lab_a c\<bar> \<le> 2 ^ 500" "\<bar>lab_b c\<bar> \<le> 2 ^ 500"
  using assms unfolding labInRange_def by blast+

lemma distFull_bound:
  assumes "doubleArithmetic ar" "labInRange q" "labInRange c"
  shows "\<bar>distFull ar q c\<bar> \<le> 2 ^ 509"
proof -
  define pl where "pl = fpow ar (fsub ar (lab_l q) (lab_l c)) 2"
  define pa where "pa = fpow ar (fsub ar (lab_a q) (lab_a c)) 2"
  define pb where "pb = fpow ar (fsub ar (lab_b q) (lab_b c)) 2"
  note rq = labInRange_components [OF assms(2)] and rc = labInRange_components [OF assms(3)]
  have l: "0 \<le> pl \<and> pl \<le> 2 ^ 1008"
    unfolding pl_def using assms(1) rq(1) rc(1) by (rule squared_difference_bound)
  have a: "0 \<le> pa \<and> pa \<le> 2 ^ 1008"
    unfolding pa_def using assms(1) rq(2) rc(2) by (rule squared_difference_bound)
  have b: "0 \<le> pb \<and> pb \<le> 2 ^ 1008"
    unfolding pb_def using assms(1) rq(3) rc(3) by (rule squared_difference_bound)
  have la: "0 \<le> fadd ar pl pa \<and> fadd ar pl pa \<le> 2 ^ 1011"
    using assms(1) l a by (intro fadd_squares) blast+
  have "(2 :: real) ^ 1008 \<le> 2 ^ 1011" by simp
  with b have b': "pb \<le> 2 ^ 1011" by linarith
  have "0 \<le> fadd ar (fadd ar pl pa) pb \<and> fadd ar (fadd ar pl pa) pb \<le> 2 ^ 1014"
    using assms(1) la b b' by (intro fadd_bound) blast+
  then have "\<bar>fsqrt ar (fadd ar (fadd ar pl pa) pb)\<bar> \<le> 2 ^ 509"
    using assms(1) by (intro fsqrt_bound) blast+
  then show ?thesis by (simp only: distFull_def pl_def pa_def pb_def)
qed

lemma half_distance_bound:
  assumes "doubleArithmetic ar" "labInRange q" "labInRange c"
  shows "\<bar>fmul ar (distFull ar q c) 0.5\<bar> \<le> 2 ^ 512"
proof -
  define d where "d = distFull ar q c"
  have "\<bar>d\<bar> \<le> 2 ^ 509" unfolding d_def using assms by (rule distFull_bound)
  moreover have "\<bar>d * 0.5\<bar> \<le> \<bar>d\<bar>" by (simp add: abs_mult)
  moreover have "(2 :: real) ^ 509 \<le> 2 ^ 510" by simp
  ultimately have "\<bar>d * 0.5\<bar> \<le> 2 ^ 510" by linarith
  with assms(1) have "\<bar>fmul ar d 0.5\<bar> \<le> 2 ^ 512" by (rule fmul_bound)
  then show ?thesis by (simp only: d_def)
qed

lemma distAB_bound:
  assumes "doubleArithmetic ar" "labInRange q" "labInRange c"
  shows "\<bar>distAB ar q c\<bar> \<le> 2 ^ 515"
proof -
  define pa where "pa = fpow ar (fsub ar (lab_a q) (lab_a c)) 2"
  define pb where "pb = fpow ar (fsub ar (lab_b q) (lab_b c)) 2"
  define t where "t = fsqrt ar (fadd ar pa pb)"
  note rq = labInRange_components [OF assms(2)] and rc = labInRange_components [OF assms(3)]
  have a: "0 \<le> pa \<and> pa \<le> 2 ^ 1008"
    unfolding pa_def using assms(1) rq(2) rc(2) by (rule squared_difference_bound)
  have b: "0 \<le> pb \<and> pb \<le> 2 ^ 1008"
    unfolding pb_def using assms(1) rq(3) rc(3) by (rule squared_difference_bound)
  have ab: "0 \<le> fadd ar pa pb \<and> fadd ar pa pb \<le> 2 ^ 1011"
    using assms(1) a b by (intro fadd_squares) blast+
  have "(2 :: real) ^ 1011 \<le> 2 ^ 1014" by simp
  with ab have "fadd ar pa pb \<le> 2 ^ 1014" by linarith
  with ab have "\<bar>t\<bar> \<le> 2 ^ 509"
    unfolding t_def using assms(1) by (intro fsqrt_bound) blast+
  moreover have "\<bar>2 * t\<bar> = 2 * \<bar>t\<bar>" by (simp add: abs_mult)
  moreover have "(2 :: real) * 2 ^ 509 = 2 ^ 510" by simp
  ultimately have "\<bar>2 * t\<bar> \<le> 2 ^ 510" by linarith
  with assms(1) have "\<bar>fmul ar 2 t\<bar> \<le> 2 ^ 512" by (rule fmul_bound)
  with assms(1) half_distance_bound [OF assms]
  have "\<bar>fadd ar (fmul ar (distFull ar q c) 0.5) (fmul ar 2 t)\<bar> \<le> 2 ^ 515"
    by (rule fadd_magnitude)
  then show ?thesis by (simp only: distAB_def t_def pa_def pb_def)
qed

lemma distL_bound:
  assumes "doubleArithmetic ar" "labInRange q" "labInRange c"
  shows "\<bar>distL ar q c\<bar> \<le> 2 ^ 515"
proof -
  define dl where "dl = fsub ar (lab_l q) (lab_l c)"
  note rq = labInRange_components [OF assms(2)] and rc = labInRange_components [OF assms(3)]
  have "\<bar>dl\<bar> \<le> 2 ^ 503"
    unfolding dl_def using assms(1) rq(1) rc(1) by (rule fsub_bound)
  with assms(1) have "\<bar>fabs ar dl\<bar> \<le> 2 ^ 505" by (rule fabs_bound)
  moreover have "(2 :: real) ^ 505 \<le> 2 ^ 512" by simp
  ultimately have "\<bar>fabs ar dl\<bar> \<le> 2 ^ 512" by linarith
  with assms(1) half_distance_bound [OF assms]
  have "\<bar>fadd ar (fmul ar (distFull ar q c) 0.5) (fabs ar dl)\<bar> \<le> 2 ^ 515"
    by (rule fadd_magnitude)
  then show ?thesis by (simp only: distL_def dl_def)
qed

lemma below_MAX_VALUE:
  assumes "\<bar>d\<bar> \<le> 2 ^ 515"
  shows "d < MAX_VALUE"
  using assms below_sentinel by linarith

lemma distFull_below_MAX_VALUE:
  assumes "doubleArithmetic ar" "labInRange q" "labInRange c"
  shows "distFull ar q c < MAX_VALUE"
proof -
  have "(2 :: real) ^ 509 \<le> 2 ^ 515" by simp
  with distFull_bound [OF assms] have "\<bar>distFull ar q c\<bar> \<le> 2 ^ 515" by linarith
  then show ?thesis by (rule below_MAX_VALUE)
qed

lemma lookups_as_distances:
  "findClosestColorIndex ar q p =
     fst (closestLoop (\<lambda>i. distFull ar q (p ! i)) [0..<length p] (0, MAX_VALUE))"
  "findClosestColorIndexAB ar q p =
     fst (closestLoop (\<lambda>i. distAB ar q (p ! i)) [0..<length p] (0, MAX_VALUE))"
  "findClosestColorIndexL ar q p =
     fst (closestLoop (\<lambda>i. distL ar q (p ! i)) [0..<length p] (0, MAX_VALUE))"
  by (simp_all add: findClosestColorIndex_def findClosestColorIndexAB_def
      findClosestColorIndexL_def distFull_def distAB_def distL_def Let_def)

lemma firstMinimum_tie:
  assumes "firstMinimum d 3 r" "d 1 < d 0" "d 2 = d 1"
  shows "r = 1"
proof -
  from assms(1) have r: "r < 3" and le: "\<forall>j<3. d r \<le> d j" and lt: "\<forall>j<r. d r < d j"
    by (simp_all add: firstMinimum_def)
  from r consider "r = 0" | "r = 1" | "r = 2" by linarith
  then show ?thesis
  proof cases
    case 1
    with le have "d 0 \<le> d 1" by simp
    with assms show ?thesis by simp
  next
    case 2
    then show ?thesis .
  next
    case 3
    with lt have "d 2 < d 1" by simp
    with assms show ?thesis by simp
  qed
qed

lemma sqrt_25: "sqrt 25 = 5" by (rule real_sqrt_unique) simp_all
lemma sqrt_100: "sqrt 100 = 10" by (rule real_sqrt_unique) simp_all

lemma labInRange_small:
  "\<bar>l\<bar> \<le> 128 \<Longrightarrow> \<bar>a\<bar> \<le> 128 \<Longrightarrow> \<bar>b\<bar> \<le> 128 \<Longrightarrow> labInRange \<lparr>lab_l = l, lab_a = a, lab_b = b\<rparr>"
proof -
  assume "\<bar>l\<bar> \<le> 128" "\<bar>a\<bar> \<le> 128" "\<bar>b\<bar> \<le> 128"
  moreover have "(128 :: real) \<le> 2 ^ 500" by simp
  ultimately have "\<bar>l\<bar> \<le> 2 ^ 500" "\<bar>a\<bar> \<le> 2 ^ 500" "\<bar>b\<bar> \<le> 2 ^ 500" by linarith+
  then show ?thesis by (simp only: labInRange_def Lab.simps simp_thms)
qed

text \<open>
  C9. For every arithmetic that behaves like double arithmetic, every query and every
  non-empty candidate list (all with components of magnitude at most \<open>2\<^sup>5\<^sup>0\<^sup>0\<close>), each of the
  three lookups returns an index at which the least computed distance of its variant is
  attained and before which every candidate is strictly farther: the smallest index of
  the minimum. The comparison is strict, so a later candidate at an equal distance never
  replaces an earlier one; and every computed distance is below the initial
  \<^verbatim>\<open>Number.MAX_VALUE\<close>, so the first candidate always replaces the initial pair.
\<close>

theorem closest_index_first_minimum:
  assumes "doubleArithmetic ar" and "labInRange q" and "\<forall>c\<in>set p. labInRange c"
    and "p \<noteq> []"
  shows "firstMinimum (\<lambda>i. distFull ar q (p ! i)) (length p) (findClosestColorIndex ar q p) \<and>
     firstMinimum (\<lambda>i. distAB ar q (p ! i)) (length p) (findClosestColorIndexAB ar q p) \<and>
     firstMinimum (\<lambda>i. distL ar q (p ! i)) (length p) (findClosestColorIndexL ar q p)"
proof -
  from assms(4) have first: "0 < length p" by simp
  with assms(3) have c: "labInRange (p ! 0)" by simp
  have "distFull ar q (p ! 0) < MAX_VALUE"
    using assms(1,2) c by (rule distFull_below_MAX_VALUE)
  from closestLoop_firstMinimum [where d = "\<lambda>i. distFull ar q (p ! i)", OF first this]
  have full: "firstMinimum (\<lambda>i. distFull ar q (p ! i)) (length p) (findClosestColorIndex ar q p)"
    by (simp only: lookups_as_distances)
  have "distAB ar q (p ! 0) < MAX_VALUE"
    using distAB_bound [OF assms(1,2) c] by (rule below_MAX_VALUE)
  from closestLoop_firstMinimum [where d = "\<lambda>i. distAB ar q (p ! i)", OF first this]
  have ab: "firstMinimum (\<lambda>i. distAB ar q (p ! i)) (length p) (findClosestColorIndexAB ar q p)"
    by (simp only: lookups_as_distances)
  have "distL ar q (p ! 0) < MAX_VALUE"
    using distL_bound [OF assms(1,2) c] by (rule below_MAX_VALUE)
  from closestLoop_firstMinimum [where d = "\<lambda>i. distL ar q (p ! i)", OF first this]
  have li: "firstMinimum (\<lambda>i. distL ar q (p ! i)) (length p) (findClosestColorIndexL ar q p)"
    by (simp only: lookups_as_distances)
  from full ab li show ?thesis by simp
qed

theorem closest_index_first_minimum_witness:
  "findClosestColorIndex exactArithmetic \<lparr>lab_l = 50, lab_a = 0, lab_b = 0\<rparr>
     [\<lparr>lab_l = 60, lab_a = 0, lab_b = 0\<rparr>, \<lparr>lab_l = 55, lab_a = 0, lab_b = 0\<rparr>,
      \<lparr>lab_l = 55, lab_a = 0, lab_b = 0\<rparr>] = 1 \<and>
   findClosestColorIndexAB exactArithmetic \<lparr>lab_l = 50, lab_a = 0, lab_b = 0\<rparr>
     [\<lparr>lab_l = 60, lab_a = 0, lab_b = 0\<rparr>, \<lparr>lab_l = 55, lab_a = 0, lab_b = 0\<rparr>,
      \<lparr>lab_l = 55, lab_a = 0, lab_b = 0\<rparr>] = 1 \<and>
   findClosestColorIndexL exactArithmetic \<lparr>lab_l = 50, lab_a = 0, lab_b = 0\<rparr>
     [\<lparr>lab_l = 60, lab_a = 0, lab_b = 0\<rparr>, \<lparr>lab_l = 55, lab_a = 0, lab_b = 0\<rparr>,
      \<lparr>lab_l = 55, lab_a = 0, lab_b = 0\<rparr>] = 1"
proof -
  let ?q = "\<lparr>lab_l = 50, lab_a = 0, lab_b = 0\<rparr>"
  let ?c = "\<lparr>lab_l = 60, lab_a = 0, lab_b = 0\<rparr>"
  let ?n = "\<lparr>lab_l = 55, lab_a = 0, lab_b = 0\<rparr>"
  let ?p = "[?c, ?n, ?n]"
  have q: "labInRange ?q" by (rule labInRange_small) simp_all
  have c: "labInRange ?c" by (rule labInRange_small) simp_all
  have n: "labInRange ?n" by (rule labInRange_small) simp_all
  have p: "\<forall>c\<in>set ?p. labInRange c" using c n by simp
  have ne: "?p \<noteq> []" by simp
  have l: "length ?p = 3" by simp
  from closest_index_first_minimum [OF exactArithmetic_double q p ne]
  have f: "firstMinimum (\<lambda>i. distFull exactArithmetic ?q (?p ! i)) 3
             (findClosestColorIndex exactArithmetic ?q ?p)"
    and a: "firstMinimum (\<lambda>i. distAB exactArithmetic ?q (?p ! i)) 3
             (findClosestColorIndexAB exactArithmetic ?q ?p)"
    and b: "firstMinimum (\<lambda>i. distL exactArithmetic ?q (?p ! i)) 3
             (findClosestColorIndexL exactArithmetic ?q ?p)"
    by (simp_all only: l)
  have "findClosestColorIndex exactArithmetic ?q ?p = 1"
    using f by (rule firstMinimum_tie)
      (simp_all add: distFull_def exactArithmetic_def sqrt_25 sqrt_100)
  moreover have "findClosestColorIndexAB exactArithmetic ?q ?p = 1"
    using a by (rule firstMinimum_tie)
      (simp_all add: distAB_def distFull_def exactArithmetic_def sqrt_25 sqrt_100)
  moreover have "findClosestColorIndexL exactArithmetic ?q ?p = 1"
    using b by (rule firstMinimum_tie)
      (simp_all add: distL_def distFull_def exactArithmetic_def sqrt_25 sqrt_100)
  ultimately show ?thesis by (simp only:)
qed

text \<open>
  C10. On an empty candidate list each of the three lookups returns index \<open>0\<close>: the loop
  body never runs, and the initial \<^verbatim>\<open>closestIndex = 0\<close> is returned; nothing is raised
  although the list has no entry at that index.
\<close>

theorem closest_index_empty:
  "findClosestColorIndex ar q [] = 0 \<and> findClosestColorIndexAB ar q [] = 0 \<and>
   findClosestColorIndexL ar q [] = 0"
  by (simp add: findClosestColorIndex_def findClosestColorIndexAB_def
      findClosestColorIndexL_def closestLoop_def)

section \<open>Properties of the point-cloud steps\<close>

lemma indicesFrom_steps:
  "0 < s \<Longrightarrow> a < s \<Longrightarrow> k \<le> n \<Longrightarrow> indicesFrom (a + k * s) (n * s) s = map (\<lambda>j. a + j * s) [k..<n]"
proof (induction "n - k" arbitrary: k)
  case 0
  then have "k = n" by simp
  with 0 show ?case by (subst indicesFrom.simps) simp
next
  case (Suc d)
  then have lt: "k < n" by simp
  then have "Suc k * s \<le> n * s" by (simp add: Suc_leI del: mult_Suc)
  with Suc.prems have cond: "a + k * s < n * s" by simp
  have "indicesFrom (a + k * s) (n * s) s = (a + k * s) # indicesFrom (a + Suc k * s) (n * s) s"
    using cond Suc.prems by (subst indicesFrom.simps) (simp add: ac_simps)
  also have "indicesFrom (a + Suc k * s) (n * s) s = map (\<lambda>j. a + j * s) [Suc k..<n]"
    using Suc lt by (intro Suc.hyps) auto
  finally show ?case using lt by (simp add: upt_conv_Cons)
qed

lemma indicesFrom_vertices: "indicesFrom 0 (n * 3) 3 = map (\<lambda>j. j * 3) [0..<n]"
  using indicesFrom_steps [of 3 0 0 n] by simp

lemma indicesFrom_heights: "indicesFrom 1 (n * 3) 3 = map (\<lambda>j. j * 3 + 1) [0..<n]"
  using indicesFrom_steps [of 3 1 0 n] by (simp add: add.commute)

lemma clampLoop_copies:
  "length pre = ri * 3 \<Longrightarrow> length rest = m * 3 \<Longrightarrow>
   (0 < m \<Longrightarrow> (i + (m - 1) * stride) * 3 < length ps) \<Longrightarrow>
   clampLoop ps stride i ri (pre @ rest) =
     pre @ concat (map (\<lambda>j. vertex ps (i + j * stride)) [0..<m])"
proof (induction m arbitrary: i ri pre rest)
  case 0
  then show ?case by (subst clampLoop.simps) simp
next
  case (Suc m)
  from Suc.prems(2) obtain x0 x1 x2 rest' where rest: "rest = x0 # x1 # x2 # rest'"
    and len': "length rest' = m * 3"
    by (cases rest; cases "tl rest"; cases "tl (tl rest)") auto
  from Suc.prems(3) have inrange: "i * 3 < length ps" by simp
  have bound: "0 < m \<Longrightarrow> (i + stride + (m - 1) * stride) * 3 < length ps"
  proof -
    assume "0 < m"
    then have "i + stride + (m - 1) * stride = i + (Suc m - 1) * stride"
      by (cases m) simp_all
    with Suc.prems(3) show ?thesis by simp
  qed
  have step: "clampLoop ps stride i ri (pre @ rest) =
      clampLoop ps stride (i + stride) (ri + 1) ((pre @ vertex ps i) @ rest')"
    using inrange Suc.prems(1) rest
    by (subst clampLoop.simps) (simp add: Let_def vertex_def list_update_append)
  have "clampLoop ps stride (i + stride) (ri + 1) ((pre @ vertex ps i) @ rest') =
      (pre @ vertex ps i) @ concat (map (\<lambda>j. vertex ps (i + stride + j * stride)) [0..<m])"
    using Suc.prems(1) len' bound by (intro Suc.IH) (simp_all add: vertex_def)
  also have "\<dots> = pre @ concat (map (\<lambda>j. vertex ps (i + j * stride)) [0..<Suc m])"
    by (simp add: upt_conv_Cons map_Suc_upt [symmetric] comp_def ac_simps del: upt_Suc)
  finally show ?case using step by simp
qed

lemma ceiling_ratio_pos: "0 < m \<Longrightarrow> m < L \<Longrightarrow> 0 < nat \<lceil>real L / real m\<rceil>"
  by (simp add: field_simps)

lemma clampPositions_eq:
  assumes "length ps = L * 3"
  shows "clampPositions ps m =
     (if L \<le> m then ps
      else if m = 0 then []
      else concat (map (\<lambda>j. vertex ps (j * nat \<lceil>real L / real m\<rceil>))
                    [0..<L div nat \<lceil>real L / real m\<rceil>]))"
proof (cases "L \<le> m \<or> m = 0")
  case True
  then show ?thesis using assms by (auto simp: clampPositions_def)
next
  case False
  then have m: "0 < m" "m < L" by auto
  define stride where "stride = nat \<lceil>real L / real m\<rceil>"
  have stride: "0 < stride"
    unfolding stride_def using m by (rule ceiling_ratio_pos)
  define K where "K = L div stride"
  have kept: "nat \<lfloor>real L / real stride\<rfloor> = K"
    by (simp add: K_def floor_divide_of_nat_eq)
  have inrange: "0 < K \<Longrightarrow> (0 + (K - 1) * stride) * 3 < length ps"
  proof -
    assume "0 < K"
    then have "(K - 1) * stride < K * stride" using stride by simp
    also have "K * stride \<le> L" by (simp add: K_def)
    finally show ?thesis using assms by simp
  qed
  have "clampLoop ps stride 0 0 ([] @ replicate (K * 3) 0) =
      [] @ concat (map (\<lambda>j. vertex ps (0 + j * stride)) [0..<K])"
    using inrange by (intro clampLoop_copies) simp_all
  then show ?thesis
    using m assms kept by (simp add: clampPositions_def Let_def stride_def [symmetric] K_def)
qed

lemma fold_copy:
  "c \<le> length ps \<Longrightarrow> c \<le> length a \<Longrightarrow>
   fold (\<lambda>i adjusted. adjusted[i := ps ! i]) [0..<c] a = take c ps @ drop c a"
proof (induction c)
  case 0
  show ?case by simp
next
  case (Suc c)
  then have "fold (\<lambda>i adjusted. adjusted[i := ps ! i]) [0..<Suc c] a =
      (take c ps @ drop c a)[c := ps ! c]" by simp
  also have "\<dots> = take c ps @ (drop c a)[0 := ps ! c]"
    using Suc.prems by (simp add: list_update_append)
  also have "drop c a = a ! c # drop (Suc c) a"
    using Suc.prems by (simp add: Cons_nth_drop_Suc)
  finally show ?case
    using Suc.prems by (simp add: take_Suc_conv_app_nth)
qed

lemma padLoop_fills:
  "length pre = p \<Longrightarrow> length rest = k * 3 \<Longrightarrow> F = p + k * 3 \<Longrightarrow>
   padLoop F x y z p (pre @ rest) = pre @ concat (replicate k [x, y, z])"
proof (induction k arbitrary: p pre rest)
  case 0
  then show ?case by (subst padLoop.simps) simp
next
  case (Suc k)
  from Suc.prems(2) obtain x0 x1 x2 rest' where rest: "rest = x0 # x1 # x2 # rest'"
    and len': "length rest' = k * 3"
    by (cases rest; cases "tl rest"; cases "tl (tl rest)") auto
  have "padLoop F x y z p (pre @ rest) = padLoop F x y z (p + 3) ((pre @ [x, y, z]) @ rest')"
    using Suc.prems rest by (subst padLoop.simps) (simp add: list_update_append)
  also have "\<dots> = (pre @ [x, y, z]) @ concat (replicate k [x, y, z])"
    using Suc.prems len' by (intro Suc.IH) simp_all
  finally show ?case by simp
qed

lemma length_concat_replicate: "length (concat (replicate k v)) = k * length v"
  by (induction k) simp_all

lemma adjustVertexCount_eq:
  assumes "length ps = L * 3"
  shows "adjustVertexCount ps n =
     take (n * 3) ps @
     concat (replicate (n - L) (if L = 0 then [0, 0, 0] else vertex ps (L - 1)))"
proof -
  define c where "c = min (length ps) (n * 3)"
  define a where "a = fold (\<lambda>i adjusted. adjusted[i := ps ! i]) [0..<c] (replicate (n * 3) 0)"
  have a: "a = take c ps @ replicate (n * 3 - c) 0"
    unfolding a_def by (subst fold_copy) (simp_all add: c_def)
  have unfold: "adjustVertexCount ps n =
      (if real c / 3 < real n then
         padLoop (n * 3) (orZero a (int c - 3)) (orZero a (int c - 2)) (orZero a (int c - 1)) c a
       else a)"
    by (simp add: adjustVertexCount_def Let_def c_def a_def)
  show ?thesis
  proof (cases "L < n")
    case False
    then have "c = n * 3" using assms by (simp add: c_def)
    with False a unfold show ?thesis by simp
  next
    case True
    then have c: "c = L * 3" using assms by (simp add: c_def)
    have a': "a = ps @ replicate ((n - L) * 3) 0"
      using a c assms by (simp add: diff_mult_distrib)
    have last: "[orZero a (int c - 3), orZero a (int c - 2), orZero a (int c - 1)] =
        (if L = 0 then [0, 0, 0] else vertex ps (L - 1))"
    proof (cases L)
      case 0
      then show ?thesis by (simp add: orZero_def c)
    next
      case (Suc L')
      have "nat (int c - 3) = L' * 3" "nat (int c - 2) = L' * 3 + 1" "nat (int c - 1) = L' * 3 + 2"
        using c Suc by simp_all
      moreover have "L' * 3 + 2 < length ps" using assms Suc by simp
      ultimately show ?thesis
        using Suc c assms by (simp add: orZero_def a' vertex_def nth_append)
    qed
    have "padLoop (n * 3) (orZero a (int c - 3)) (orZero a (int c - 2)) (orZero a (int c - 1)) c a =
        ps @ concat (replicate (n - L) [orZero a (int c - 3), orZero a (int c - 2), orZero a (int c - 1)])"
      unfolding a' using c assms True by (intro padLoop_fills) (simp_all add: diff_mult_distrib)
    with True unfold c last assms show ?thesis by simp
  qed
qed

lemma fold_height_bounds:
  "fold (\<lambda>i (minY, maxY).
           let y = ps ! i;
               minY = (if below y minY then Some y else minY);
               maxY = (if above y maxY then Some y else maxY)
           in (minY, maxY))
        (map (\<lambda>j. j * 3 + 1) [0..<n]) (None, None) =
     (if n = 0 then (None, None)
      else (Some (Min ((\<lambda>j. ps ! (j * 3 + 1)) ` {0..<n})),
            Some (Max ((\<lambda>j. ps ! (j * 3 + 1)) ` {0..<n}))))"
proof (induction n)
  case 0
  show ?case by simp
next
  case (Suc n)
  show ?case
  proof (cases "n = 0")
    case True
    then show ?thesis by (simp add: below_def above_def Let_def)
  next
    case False
    let ?f = "\<lambda>j. ps ! (j * 3 + 1)"
    have img: "?f ` {0..<Suc n} = insert (?f n) (?f ` {0..<n})"
      by (simp add: atLeast0_lessThan_Suc)
    have ne: "?f ` {0..<n} \<noteq> {}" using False by simp
    have mn: "Min (?f ` {0..<Suc n}) = min (?f n) (Min (?f ` {0..<n}))"
      unfolding img using ne by (subst Min_insert) simp_all
    have mx: "Max (?f ` {0..<Suc n}) = max (?f n) (Max (?f ` {0..<n}))"
      unfolding img using ne by (subst Max_insert) simp_all
    define lo where "lo = Min (?f ` {0..<n})"
    define hi where "hi = Max (?f ` {0..<n})"
    let ?F = "\<lambda>i (minY, maxY).
           let y = ps ! i;
               minY = (if below y minY then Some y else minY);
               maxY = (if above y maxY then Some y else maxY)
           in (minY, maxY)"
    have "fold ?F (map (\<lambda>j. j * 3 + 1) [0..<Suc n]) (None, None) =
        ?F (n * 3 + 1) (fold ?F (map (\<lambda>j. j * 3 + 1) [0..<n]) (None, None))"
      by simp
    also have "\<dots> = ?F (n * 3 + 1) (Some lo, Some hi)"
      using False Suc by (simp only: lo_def hi_def if_False)
    also have "\<dots> = (Some (min (?f n) lo), Some (max (?f n) hi))"
      by (simp add: below_def above_def Let_def min_def max_def)
    finally show ?thesis
      by (simp only: mn mx lo_def hi_def nat.simps if_False)
  qed
qed

lemma fold_kept:
  "fold (\<lambda>i kept.
           let y = ps ! (i + 1)
           in if y \<le> t then kept else kept @ [ps ! i, ps ! (i + 1), ps ! (i + 2)])
        (map (\<lambda>j. j * 3) [0..<n]) [] =
     concat (filter (\<lambda>v. \<not> v ! 1 \<le> t) (map (vertex ps) [0..<n]))"
  by (induction n) (simp_all add: Let_def vertex_def)

lemma length_concat_vertices:
  "length (concat (filter P (map (vertex ps) is))) = 3 * length (filter P (map (vertex ps) is))"
  by (induction "is") (simp_all add: vertex_def)

lemma trimBottomRow_eq:
  assumes "length ps = L * 3"
  shows "trimBottomRow ps =
     (let ys = map (\<lambda>v. v ! 1) (vertices ps);
          threshold = Min (set ys) + (Max (set ys) - Min (set ys)) * 0.01;
          kept = filter (\<lambda>v. \<not> v ! 1 \<le> threshold) (vertices ps)
      in if kept = [] then ps else concat kept)"
proof (cases "L = 0")
  case True
  then show ?thesis using assms by (simp add: trimBottomRow_def vertices_def)
next
  case False
  let ?f = "\<lambda>j. ps ! (j * 3 + 1)"
  have ys: "set (map (\<lambda>v. v ! 1) (vertices ps)) = ?f ` {0..<L}"
    using assms by (auto simp: vertices_def vertex_def)
  define t where "t = Min (?f ` {0..<L}) + (Max (?f ` {0..<L}) - Min (?f ` {0..<L})) * 0.01"
  define kept where "kept = filter (\<lambda>v. \<not> v ! 1 \<le> t) (map (vertex ps) [0..<L])"
  have len: "length (concat kept) = 3 * length kept"
    unfolding kept_def by (rule length_concat_vertices)
  have "trimBottomRow ps = (if length (concat kept) \<ge> 3 then concat kept else ps)"
    unfolding trimBottomRow_def assms indicesFrom_heights indicesFrom_vertices
      fold_height_bounds fold_kept
    using False by (simp add: Let_def t_def kept_def)
  also have "\<dots> = (if kept = [] then ps else concat kept)"
    using len by (cases kept) simp_all
  finally have "trimBottomRow ps = (if kept = [] then ps else concat kept)" .
  then show ?thesis
    unfolding Let_def ys using assms by (simp add: t_def kept_def vertices_def)
qed

text \<open>
  C8. When the two position arrays differ in length, \<open>reorderToNearest\<close> fails with its
  error at once: the check precedes the bounds, the grid and the matching loop, and no
  result array is produced.
\<close>

theorem reorderToNearest_length_mismatch:
  "length targetPositions \<noteq> length referencePositions \<Longrightarrow>
   reorderToNearest referencePositions targetPositions = Inl EqualLengthRequired"
  by (simp add: reorderToNearest_def)

theorem reorderToNearest_length_mismatch_witness:
  "length [1, 2, 3 :: real] \<noteq> length [0, 0, 0, 1, 1, 1 :: real] \<and>
   reorderToNearest [0, 0, 0, 1, 1, 1] [1, 2, 3] = Inl EqualLengthRequired"
  using reorderToNearest_length_mismatch [of "[1, 2, 3]" "[0, 0, 0, 1, 1, 1]"] by simp

text \<open>
  C5. For a cloud of \<open>L\<close> vertices, \<open>adjustVertexCount\<close> returns exactly \<open>n\<close> vertices. When
  the cloud is not empty, they are the first \<open>min L n\<close> vertices of the input, in order,
  followed by \<open>n - L\<close> copies of the input's final vertex. An empty cloud has no final
  vertex; it is padded with zeros.
\<close>

theorem adjustVertexCount_pads_with_last:
  assumes "length ps = L * 3"
  shows "length (adjustVertexCount ps n) = n * 3 \<and>
     (0 < L \<longrightarrow>
        adjustVertexCount ps n =
          take (min L n * 3) ps @ concat (replicate (n - L) (vertex ps (L - 1)))) \<and>
     (L = 0 \<longrightarrow> adjustVertexCount ps n = concat (replicate n [0, 0, 0]))"
proof -
  have take: "take (n * 3) ps = take (min L n * 3) ps"
    using assms by (simp add: min_def)
  have "length (take (n * 3) ps) = min L n * 3"
    using assms by (simp add: min_def)
  moreover have "length (concat (replicate (n - L) v)) = (n - L) * length v" for v :: "real list"
    by (rule length_concat_replicate)
  ultimately have "length (adjustVertexCount ps n) = n * 3"
    by (simp add: adjustVertexCount_eq [OF assms] vertex_def min_def add_mult_distrib [symmetric])
  then show ?thesis
    using assms take by (simp add: adjustVertexCount_eq [OF assms])
qed

theorem adjustVertexCount_pads_with_last_witness:
  "adjustVertexCount [1, 2, 3, 4, 5, 6] 4 = [1, 2, 3, 4, 5, 6, 4, 5, 6, 4, 5, 6] \<and>
   adjustVertexCount [1, 2, 3, 4, 5, 6] 1 = [1, 2, 3] \<and>
   adjustVertexCount [] 2 = [0, 0, 0, 0, 0, 0]"
  using adjustVertexCount_pads_with_last [of "[1, 2, 3, 4, 5, 6]" 2 4]
    adjustVertexCount_pads_with_last [of "[1, 2, 3, 4, 5, 6]" 2 1]
    adjustVertexCount_pads_with_last [of "[]" 0 2]
  by (simp add: vertex_def numeral_eq_Suc)

text \<open>
  C6, as the code has it. A cloud of at most \<open>m\<close> vertices is returned unchanged. A cloud
  of \<open>L > m\<close> vertices is reduced to the vertices at the indices \<open>0\<close>, \<open>stride\<close>,
  \<open>2 * stride\<close>, ... in the original order, with \<open>stride\<close> the ceiling of \<open>L / m\<close>, but only
  the first \<open>floor (L / stride)\<close> of them: when \<open>stride\<close> does not divide \<open>L\<close>, the last
  vertex at a multiple of \<open>stride\<close> is left out.
\<close>

theorem clampPositions_sample:
  assumes "length ps = L * 3"
  shows "(L \<le> m \<longrightarrow> clampPositions ps m = ps) \<and>
     (0 < m \<and> m < L \<longrightarrow>
        clampPositions ps m =
          concat (map (\<lambda>j. vertex ps (j * nat \<lceil>real L / real m\<rceil>))
                    [0..<L div nat \<lceil>real L / real m\<rceil>]))"
  by (simp add: clampPositions_eq [OF assms])

theorem clampPositions_sample_witness:
  "clampPositions [0, 0, 0, 1, 1, 1, 2, 2, 2, 3, 3, 3, 4, 4, 4] 2 = [0, 0, 0] \<and>
   clampPositions [0, 0, 0, 1, 1, 1, 2, 2, 2, 3, 3, 3, 4, 4, 4] 5 =
     [0, 0, 0, 1, 1, 1, 2, 2, 2, 3, 3, 3, 4, 4, 4]"
  using clampPositions_sample [of "[0, 0, 0, 1, 1, 1, 2, 2, 2, 3, 3, 3, 4, 4, 4]" 5 2]
    clampPositions_sample [of "[0, 0, 0, 1, 1, 1, 2, 2, 2, 3, 3, 3, 4, 4, 4]" 5 5]
  by (simp add: vertex_def)

text \<open>
  C6, as the specification states it, fails: with five vertices and a cap of two the
  stride is three, the vertices at the multiples of three are the first and the fourth,
  and the code returns the first only.
\<close>

theorem clampPositions_every_strideth_counterexample:
  "clampPositions [0, 0, 0, 1, 1, 1, 2, 2, 2, 3, 3, 3, 4, 4, 4] 2 \<noteq>
   everyStrideth [0, 0, 0, 1, 1, 1, 2, 2, 2, 3, 3, 3, 4, 4, 4] (nat \<lceil>(5 :: real) / 2\<rceil>)"
proof -
  have "clampPositions [0, 0, 0, 1, 1, 1, 2, 2, 2, 3, 3, 3, 4, 4, 4] 2 = [0, 0, 0]"
    using clampPositions_eq [of "[0, 0, 0, 1, 1, 1, 2, 2, 2, 3, 3, 3, 4, 4, 4]" 5 2]
    by (simp add: vertex_def)
  moreover have "everyStrideth [0, 0, 0, 1, 1, 1, 2, 2, 2, 3, 3, 3, 4, 4, 4] (nat \<lceil>(5 :: real) / 2\<rceil>) =
      [0, 0, 0, 3, 3, 3]"
    by (simp add: everyStrideth_def vertex_def upt_conv_Cons)
  ultimately show ?thesis by simp
qed

text \<open>
  C7. \<open>trimBottomRow\<close> computes the least and the greatest height of the cloud, drops
  exactly the vertices whose height is at most \<open>minY + (maxY - minY) * 0.01\<close> and keeps the
  others in order; when no vertex would be left, it returns the cloud as it was.
\<close>

theorem trimBottomRow_discards_bottom:
  assumes "length ps = L * 3"
  shows "trimBottomRow ps =
     (let ys = map (\<lambda>v. v ! 1) (vertices ps);
          threshold = Min (set ys) + (Max (set ys) - Min (set ys)) * 0.01;
          kept = filter (\<lambda>v. \<not> v ! 1 \<le> threshold) (vertices ps)
      in if kept = [] then ps else concat kept)"
  using assms by (rule trimBottomRow_eq)

theorem trimBottomRow_discards_bottom_witness:
  "trimBottomRow [0, 0, 0, 1, 1, 1, 2, 2, 2] = [1, 1, 1, 2, 2, 2] \<and>
   trimBottomRow [0, 1, 0, 1, 1, 1] = [0, 1, 0, 1, 1, 1]"
  using trimBottomRow_discards_bottom [of "[0, 0, 0, 1, 1, 1, 2, 2, 2]" 3]
    trimBottomRow_discards_bottom [of "[0, 1, 0, 1, 1, 1]" 2]
  by (simp add: vertices_def vertex_def upt_conv_Cons)

section \<open>Properties of the correspondence builder\<close>

lemma fold_invariant:
  "(\<And>x s. x \<in> set xs \<Longrightarrow> P s \<Longrightarrow> P (f x s)) \<Longrightarrow> P s \<Longrightarrow> P (fold f xs s)"
  by (induction xs arbitrary: s) simp_all

lemma visit_available:
  assumes "\<forall>j e. best = Some (j, e) \<longrightarrow> j < length av \<and> av ! j"
  shows "\<forall>j e. visit t av rx ry rz idx best = Some (j, e) \<longrightarrow> j < length av \<and> av ! j"
  using assms by (auto simp: visit_def Let_def split: if_splits option.splits)

lemma visit_keeps_found: "best \<noteq> None \<Longrightarrow> visit t av rx ry rz idx best \<noteq> None"
  by (auto simp: visit_def Let_def split: option.splits)

lemma visit_finds: "idx < length av \<Longrightarrow> av ! idx \<Longrightarrow> visit t av rx ry rz idx best \<noteq> None"
  by (auto simp: visit_def Let_def split: option.splits)

lemma fold_visit_keeps_found:
  "best \<noteq> None \<Longrightarrow> fold (visit t av rx ry rz) xs best \<noteq> None"
  by (rule fold_invariant) (simp_all add: visit_keeps_found)

lemma fold_visit_finds:
  "i \<in> set xs \<Longrightarrow> i < length av \<Longrightarrow> av ! i \<Longrightarrow> fold (visit t av rx ry rz) xs best \<noteq> None"
proof (induction xs arbitrary: best)
  case Nil
  then show ?case by simp
next
  case (Cons x xs)
  show ?case
  proof (cases "i = x")
    case True
    with Cons.prems have "visit t av rx ry rz x best \<noteq> None" by (simp add: visit_finds)
    then show ?thesis by (simp add: fold_visit_keeps_found)
  next
    case False
    with Cons show ?thesis by simp
  qed
qed

lemma findNearest_available:
  assumes "findNearest fr t len g rx ry rz = Some idx"
  shows "idx < length (available g) \<and> available g ! idx"
proof -
  let ?P = "\<lambda>best :: (nat \<times> real) option.
    \<forall>j e. best = Some (j, e) \<longrightarrow> j < length (available g) \<and> available g ! j"
  obtain cx cy cz where c: "cellOf fr rx ry rz = (cx, cy, cz)"
    by (cases "cellOf fr rx ry rz")
  define ring where "ring = (\<lambda>r best.
      if best = None then
        fold (\<lambda>(dx, dy, dz) best.
                case buckets g (cx + dx, cy + dy, cz + dz) of
                  None \<Rightarrow> best
                | Some arr \<Rightarrow> fold (visit t (available g) rx ry rz) arr best)
             (offsets r) best
      else best)"
  define best1 where "best1 = fold ring [0, 1, 2] None"
  define best2 where "best2 =
    (if best1 = None then fold (visit t (available g) rx ry rz) [0..<len] None else best1)"
  have visits: "?P (fold (visit t (available g) rx ry rz) xs b)" if "?P b" for xs b
    using that by (rule fold_invariant [rotated]) (rule visit_available)
  have bucket: "?P ((\<lambda>(dx, dy, dz) best.
                case buckets g (cx + dx, cy + dy, cz + dz) of
                  None \<Rightarrow> best
                | Some arr \<Rightarrow> fold (visit t (available g) rx ry rz) arr best) off b)"
    if "?P b" for off b
  proof (cases off)
    case (fields dx dy dz)
    show ?thesis
    proof (cases "buckets g (cx + dx, cy + dy, cz + dz)")
      case None
      with fields that show ?thesis by simp
    next
      case (Some arr)
      with fields visits [OF that, of arr] show ?thesis by simp
    qed
  qed
  have ring: "?P (ring r b)" if "?P b" for r b
  proof (cases "b = None")
    case True
    have "?P (fold (\<lambda>(dx, dy, dz) best.
                case buckets g (cx + dx, cy + dy, cz + dz) of
                  None \<Rightarrow> best
                | Some arr \<Rightarrow> fold (visit t (available g) rx ry rz) arr best)
             (offsets r) b)"
      using that by (rule fold_invariant [rotated]) (rule bucket)
    with True show ?thesis by (simp add: ring_def)
  next
    case False
    then have "ring r b = b" by (auto simp: ring_def)
    with that show ?thesis by simp
  qed
  have "?P None" by simp
  then have "?P best1"
    unfolding best1_def by (rule fold_invariant [rotated]) (rule ring)
  moreover have "?P (fold (visit t (available g) rx ry rz) [0..<len] None)"
    by (rule visits) simp
  ultimately have "?P best2"
    unfolding best2_def by (cases "best1 = None") simp_all
  moreover have "findNearest fr t len g rx ry rz = map_option fst best2"
    by (simp add: findNearest_def c best2_def best1_def ring_def Let_def)
  with assms obtain e where "best2 = Some (idx, e)"
    by (cases best2) auto
  ultimately show ?thesis by blast
qed

lemma findNearest_finds:
  assumes "i < len" "i < length (available g)" "available g ! i"
  shows "findNearest fr t len g rx ry rz \<noteq> None"
proof -
  obtain cx cy cz where c: "cellOf fr rx ry rz = (cx, cy, cz)"
    by (cases "cellOf fr rx ry rz")
  have "fold (visit t (available g) rx ry rz) [0..<len] None \<noteq> None"
    using assms by (intro fold_visit_finds [of i]) simp_all
  then show ?thesis
    by (simp add: findNearest_def c Let_def)
qed

text \<open>The indices that are still available.\<close>

lemma available_update:
  "{i. i < length (av[idx := False]) \<and> av[idx := False] ! i} = {i. i < length av \<and> av ! i} - {idx}"
proof (cases "idx < length av")
  case True
  then show ?thesis by (auto simp: nth_list_update split: if_splits)
next
  case False
  then show ?thesis by (auto simp: list_update_beyond)
qed

lemma assignStep_available:
  "findNearest fr t len g (r ! (i * 3)) (r ! (i * 3 + 1)) (r ! (i * 3 + 2)) = Some idx \<Longrightarrow>
   available (assignStep fr r t len i g) = (available g)[idx := False]"
  by (simp add: assignStep_def Let_def)

lemma chosen_distinct:
  "length (available g) = len \<Longrightarrow>
   length is \<le> card {i. i < len \<and> available g ! i} \<Longrightarrow>
   \<exists>p. chosen fr r t len is g = map Some p \<and> distinct p \<and>
       set p \<subseteq> {i. i < len \<and> available g ! i}"
proof (induction "is" arbitrary: g)
  case Nil
  show ?case by simp
next
  case (Cons i "is")
  let ?A = "{j. j < len \<and> available g ! j}"
  have fin: "finite ?A" by simp
  from Cons.prems(2) have "0 < card ?A" by simp
  then have "?A \<noteq> {}" using card_gt_0_iff by blast
  then obtain j where j: "j < len" "available g ! j" by auto
  with Cons.prems(1)
  have "findNearest fr t len g (r ! (i * 3)) (r ! (i * 3 + 1)) (r ! (i * 3 + 2)) \<noteq> None"
    by (intro findNearest_finds [of j]) simp_all
  then obtain idx where
    idx: "findNearest fr t len g (r ! (i * 3)) (r ! (i * 3 + 1)) (r ! (i * 3 + 2)) = Some idx"
    by auto
  from findNearest_available [OF idx] Cons.prems(1) have mem: "idx \<in> ?A" by simp
  let ?g = "assignStep fr r t len i g"
  have av: "available ?g = (available g)[idx := False]"
    using idx by (rule assignStep_available)
  have len: "length (available ?g) = len" using av Cons.prems(1) by simp
  have A': "{j. j < len \<and> available ?g ! j} = ?A - {idx}"
    using available_update [of "available g" idx] Cons.prems(1) by (simp add: av)
  have "card (?A - {idx}) = card ?A - 1" using mem fin by simp
  with Cons.prems(2) have "length is \<le> card {j. j < len \<and> available ?g ! j}"
    by (simp add: A')
  from Cons.IH [OF len this] obtain p where
    p: "chosen fr r t len is ?g = map Some p" "distinct p" "set p \<subseteq> ?A - {idx}"
    unfolding A' by blast
  have "chosen fr r t len (i # is) g = map Some (idx # p)"
    using idx p(1) by simp
  moreover have "distinct (idx # p)" using p by auto
  moreover have "set (idx # p) \<subseteq> ?A" using p mem by auto
  ultimately show ?case by blast
qed

lemma chosen_length: "length (chosen fr r t len is g) = length is"
  by (induction "is" arbitrary: g) simp_all

lemma chosen_permutation:
  assumes "length (available g) = n" "\<forall>i<n. available g ! i"
  shows "\<exists>p. chosen fr r t n [0..<n] g = map Some p \<and> distinct p \<and> set p = {0..<n}"
proof -
  have all: "{i. i < n \<and> available g ! i} = {0..<n}" using assms by auto
  then have "length [0..<n] \<le> card {i. i < n \<and> available g ! i}" by simp
  from chosen_distinct [OF assms(1) this, of fr r t] obtain p where
    p: "chosen fr r t n [0..<n] g = map Some p" "distinct p" "set p \<subseteq> {0..<n}"
    unfolding all by blast
  have "length p = n"
    using chosen_length [of fr r t n "[0..<n]" g] p(1) by simp
  with p(2) have "card (set p) = card {0..<n}" by (simp add: distinct_card)
  with p(3) have "set p = {0..<n}" by (intro card_subset_eq) simp_all
  with p show ?thesis by blast
qed

lemma reordered_chosen:
  "length pre = k * 3 \<Longrightarrow> length rest = (n - k) * 3 \<Longrightarrow> k \<le> n \<Longrightarrow>
   reordered g = pre @ rest \<Longrightarrow>
   chosen fr r t len [k..<n] g = map Some p \<Longrightarrow>
   reordered (fold (assignStep fr r t len) [k..<n] g) = pre @ concat (map (vertex t) p)"
proof (induction "n - k" arbitrary: k g pre rest p)
  case 0
  then show ?case by simp
next
  case (Suc d)
  then have lt: "k < n" by simp
  then have upt: "[k..<n] = k # [Suc k..<n]" by (simp add: upt_conv_Cons)
  from Suc.prems(5) obtain idx p' where p: "p = idx # p'"
    and idx: "findNearest fr t len g (r ! (k * 3)) (r ! (k * 3 + 1)) (r ! (k * 3 + 2)) = Some idx"
    and rest: "chosen fr r t len [Suc k..<n] (assignStep fr r t len k g) = map Some p'"
    unfolding upt by (cases p) auto
  from Suc.prems(2) lt obtain x0 x1 x2 rest' where rest_eq: "rest = x0 # x1 # x2 # rest'"
    and len': "length rest' = (n - Suc k) * 3"
    by (cases rest; cases "tl rest"; cases "tl (tl rest)") (auto simp: Suc_diff_Suc)
  let ?g = "assignStep fr r t len k g"
  have re: "reordered ?g = (pre @ vertex t idx) @ rest'"
    using idx Suc.prems(1,4) rest_eq
    by (simp add: assignStep_def Let_def vertex_def list_update_append)
  have "reordered (fold (assignStep fr r t len) [Suc k..<n] ?g) =
      (pre @ vertex t idx) @ concat (map (vertex t) p')"
    using Suc.hyps(2) Suc.prems(1) len' lt re rest
    by (intro Suc.hyps(1) [where rest = rest']) (simp_all add: vertex_def)
  then show ?case by (simp add: upt p)
qed

lemma initialGrid_simps:
  "available (initialGrid fr t n) = replicate n True"
  "buckets (initialGrid fr t n) = fillBuckets fr t n"
  "reordered (initialGrid fr t n) = replicate (length t) 0"
  by (simp_all add: initialGrid_def)

lemma take_vertices: "n * 3 \<le> length ps \<Longrightarrow> concat (map (vertex ps) [0..<n]) = take (n * 3) ps"
proof (induction n)
  case 0
  show ?case by simp
next
  case (Suc n)
  then have "take (Suc (Suc (Suc (n * 3)))) ps = take (n * 3) ps @ vertex ps n"
    by (simp add: vertex_def take_Suc_conv_app_nth)
  moreover have "Suc n * 3 = Suc (Suc (Suc (n * 3)))" by simp
  ultimately have "take (Suc n * 3) ps = take (n * 3) ps @ vertex ps n"
    by (simp only:)
  with Suc show ?case by simp
qed

lemma fillBuckets_eq:
  "fillBuckets fr t n key =
     (if filter (\<lambda>i. cellOfVertex fr t i = key) [0..<n] = [] then None
      else Some (filter (\<lambda>i. cellOfVertex fr t i = key) [0..<n]))"
proof (induction n arbitrary: key)
  case 0
  show ?case by (simp add: fillBuckets_def)
next
  case (Suc n)
  have step: "fillBuckets fr t (Suc n) =
      (let bs = fillBuckets fr t n; k = cellOfVertex fr t n
       in case bs k of None \<Rightarrow> bs(k \<mapsto> [n]) | Some arr \<Rightarrow> bs(k \<mapsto> arr @ [n]))"
    by (simp add: fillBuckets_def Let_def)
  show ?case
  proof (cases "cellOfVertex fr t n = key")
    case True
    then show ?thesis
      using Suc [of key] by (simp add: step Let_def split: option.splits)
  next
    case False
    then show ?thesis
      using Suc [of key] by (simp add: step Let_def split: option.splits)
  qed
qed

lemma squares_not_negative: "\<not> (a ^ 2 + b ^ 2 + c ^ 2 < (0 :: real))"
  by (simp add: not_less add_nonneg_nonneg)

lemma visit_zero: "visit t av rx ry rz idx (Some (k, 0)) = Some (k, 0)"
  by (simp add: visit_def Let_def squares_not_negative)

lemma fold_visit_zero: "fold (visit t av rx ry rz) xs (Some (k, 0)) = Some (k, 0)"
  by (induction xs) (simp_all add: visit_zero)

lemma offsets_zero: "offsets 0 = [(0, 0, 0)]"
  by (simp add: offsets_def)

lemma findNearest_first_in_cell:
  assumes "cellOf fr rx ry rz = (cx, cy, cz)"
    and "buckets g (cx, cy, cz) = Some (k # rest)"
    and "visit t (available g) rx ry rz k None = Some (k, 0)"
  shows "findNearest fr t n g rx ry rz = Some k"
  by (simp add: findNearest_def assms offsets_zero fold_visit_zero)

lemma findNearest_self:
  assumes "k < length (available g)" "available g ! k"
    and "buckets g (cellOfVertex fr ps k) = Some (k # rest)"
  shows "findNearest fr ps n g (ps ! (k * 3)) (ps ! (k * 3 + 1)) (ps ! (k * 3 + 2)) = Some k"
proof -
  obtain cx cy cz where c: "cellOfVertex fr ps k = (cx, cy, cz)"
    by (cases "cellOfVertex fr ps k")
  then have c': "cellOf fr (ps ! (k * 3)) (ps ! (k * 3 + 1)) (ps ! (k * 3 + 2)) = (cx, cy, cz)"
    by (simp add: cellOfVertex_def)
  have first: "visit ps (available g) (ps ! (k * 3)) (ps ! (k * 3 + 1)) (ps ! (k * 3 + 2)) k None =
      Some (k, 0)"
    using assms(1,2) by (simp add: visit_def)
  from c' assms(3) [unfolded c] first show ?thesis
    by (rule findNearest_first_in_cell)
qed

lemma chosen_identity:
  "k \<le> n \<Longrightarrow> length (available g) = n \<Longrightarrow> (\<forall>i. k \<le> i \<and> i < n \<longrightarrow> available g ! i) \<Longrightarrow>
   (\<forall>key. buckets g key =
      (if filter (\<lambda>i. cellOfVertex fr ps i = key) [0..<n] = [] then None
       else Some (filter (\<lambda>i. cellOfVertex fr ps i = key) [k..<n]))) \<Longrightarrow>
   chosen fr ps ps n [k..<n] g = map Some [k..<n]"
proof (induction "n - k" arbitrary: k g)
  case 0
  then show ?case by simp
next
  case (Suc d)
  then have lt: "k < n" by simp
  then have upt: "[k..<n] = k # [Suc k..<n]" by (simp add: upt_conv_Cons)
  let ?c = "cellOfVertex fr ps k"
  let ?B = "\<lambda>j key. filter (\<lambda>i. cellOfVertex fr ps i = key) [j..<n]"
  have "k \<in> set (?B 0 ?c)" using lt by simp
  then have ne: "?B 0 ?c \<noteq> []" by (metis empty_iff empty_set)
  have split: "?B k ?c = k # ?B (Suc k) ?c" by (simp add: upt)
  from Suc.prems(4) have "buckets g ?c = (if ?B 0 ?c = [] then None else Some (?B k ?c))"
    by (rule spec)
  then have bucket: "buckets g ?c = Some (k # ?B (Suc k) ?c)"
    using ne split by (simp only: if_False)
  have idx: "findNearest fr ps n g (ps ! (k * 3)) (ps ! (k * 3 + 1)) (ps ! (k * 3 + 2)) = Some k"
    using lt Suc.prems(2,3) bucket by (intro findNearest_self) simp_all
  let ?g = "assignStep fr ps ps n k g"
  have av: "available ?g = (available g)[k := False]"
    using idx by (rule assignStep_available)
  have bs: "buckets ?g = removeFromBucket fr ps k (buckets g)"
    using idx by (simp add: assignStep_def Let_def)
  have inv: "buckets ?g key =
      (if ?B 0 key = [] then None else Some (?B (Suc k) key))" for key
  proof (cases "key = ?c")
    case True
    then show ?thesis using bucket ne by (simp add: bs removeFromBucket_def Let_def)
  next
    case False
    then have same: "?B k key = ?B (Suc k) key" by (auto simp: upt)
    from Suc.prems(4)
    have old: "buckets g key = (if ?B 0 key = [] then None else Some (?B k key))"
      by (rule spec)
    have "buckets ?g key = buckets g key"
      using False bucket by (simp add: bs removeFromBucket_def Let_def)
    with old same show ?thesis by simp
  qed
  have "chosen fr ps ps n [Suc k..<n] ?g = map Some [Suc k..<n]"
    using Suc.hyps(2) lt Suc.prems(2,3) inv
    by (intro Suc.hyps(1)) (simp_all add: av)
  then show ?case using idx by (simp add: upt)
qed

lemma reorderToNearest_unfold:
  "length r = n * 3 \<Longrightarrow> length t = n * 3 \<Longrightarrow>
   reorderToNearest r t =
     Inr (reordered (fold (assignStep (frameOf r t) r t n) [0..<n] (initialGrid (frameOf r t) t n)))"
  by (simp add: reorderToNearest_def Let_def)

text \<open>
  C1. For a reference and a target of \<open>n\<close> vertices each, every pass of the main loop
  finds a target index; the indices found, in the order of the reference indices, are
  pairwise distinct and are exactly \<open>0\<close>, ..., \<open>n - 1\<close>; and the result holds, at reference
  index \<open>i\<close>, the target vertex of the index found for \<open>i\<close>. An index whose
  \<open>available\<close> flag has been cleared is never found again.
\<close>

theorem reorderToNearest_bijection:
  assumes "length r = n * 3" and "length t = n * 3"
  shows "\<exists>p. nearestIndices r t = map Some p \<and> distinct p \<and> set p = {0..<n} \<and>
     reorderToNearest r t = Inr (concat (map (vertex t) p))"
proof -
  let ?fr = "frameOf r t"
  let ?g = "initialGrid ?fr t n"
  have "length (available ?g) = n" "\<forall>i<n. available ?g ! i"
    by (simp_all add: initialGrid_simps)
  from chosen_permutation [OF this, of ?fr r t] obtain p where
    p: "chosen ?fr r t n [0..<n] ?g = map Some p" "distinct p" "set p = {0..<n}"
    by blast
  have "reordered (fold (assignStep ?fr r t n) [0..<n] ?g) = [] @ concat (map (vertex t) p)"
    using assms p(1)
    by (intro reordered_chosen [where rest = "replicate (n * 3) 0"])
      (simp_all add: initialGrid_simps)
  then have "reorderToNearest r t = Inr (concat (map (vertex t) p))"
    by (simp add: reorderToNearest_unfold [OF assms])
  moreover have "nearestIndices r t = map Some p"
    using p(1) assms by (simp add: nearestIndices_def Let_def)
  ultimately show ?thesis using p by blast
qed

theorem reorderToNearest_bijection_witness:
  "\<exists>p. nearestIndices [0, 0, 0, 1, 1, 1] [1, 1, 1, 0, 0, 0] = map Some p \<and> distinct p \<and>
     set p = {0..<2} \<and>
     reorderToNearest [0, 0, 0, 1, 1, 1] [1, 1, 1, 0, 0, 0] =
       Inr (concat (map (vertex [1, 1, 1, 0, 0, 0]) p))"
  using reorderToNearest_bijection [of "[0, 0, 0, 1, 1, 1]" 2 "[1, 1, 1, 0, 0, 0]"] by simp

text \<open>
  C4. With the same cloud of \<open>n\<close> vertices as reference and as target, the index found
  for reference index \<open>i\<close> is \<open>i\<close> itself, and the result is the cloud, coordinate for
  coordinate.
\<close>

theorem reorderToNearest_identity:
  assumes "length ps = n * 3"
  shows "reorderToNearest ps ps = Inr ps \<and> nearestIndices ps ps = map Some [0..<n]"
proof -
  let ?fr = "frameOf ps ps"
  let ?g = "initialGrid ?fr ps n"
  have ch: "chosen ?fr ps ps n [0..<n] ?g = map Some [0..<n]"
    by (rule chosen_identity) (simp_all add: initialGrid_simps fillBuckets_eq)
  have "reordered (fold (assignStep ?fr ps ps n) [0..<n] ?g) =
      [] @ concat (map (vertex ps) [0..<n])"
    using assms ch
    by (intro reordered_chosen [where rest = "replicate (n * 3) 0"])
      (simp_all add: initialGrid_simps)
  then have "reorderToNearest ps ps = Inr ps"
    using assms by (simp add: reorderToNearest_unfold [OF assms assms] take_vertices)
  moreover have "nearestIndices ps ps = map Some [0..<n]"
    using ch assms by (simp add: nearestIndices_def Let_def)
  ultimately show ?thesis by simp
qed

theorem reorderToNearest_identity_witness:
  "reorderToNearest [0, 0, 0, 1, 1, 1, 0, 0, 0] [0, 0, 0, 1, 1, 1, 0, 0, 0] =
     Inr [0, 0, 0, 1, 1, 1, 0, 0, 0] \<and>
   nearestIndices [0, 0, 0, 1, 1, 1, 0, 0, 0] [0, 0, 0, 1, 1, 1, 0, 0, 0] = map Some [0..<3]"
  using reorderToNearest_identity [of "[0, 0, 0, 1, 1, 1, 0, 0, 0]" 3] by simp

section \<open>Properties of the colour conversion\<close>

text \<open>
  In exact arithmetic the two nonlinearities are inverse to each other, the product of
  the two coefficient matrices differs from the identity by less than \<open>10\<^sup>-\<^sup>6\<close> on
  linear channels in the unit interval, and consecutive 8-bit levels are far enough apart
  for the final rounding to absorb that error.
\<close>

lemma powr_cube: "0 < t \<Longrightarrow> (t powr (1 / 3)) * (t powr (1 / 3)) * (t powr (1 / 3)) = (t :: real)"
proof -
  assume "0 < t"
  have "(t powr (1 / 3)) * (t powr (1 / 3)) * (t powr (1 / 3)) = t powr (1 / 3 + 1 / 3 + 1 / 3)"
    by (simp only: powr_add)
  also have "\<dots> = t" using \<open>0 < t\<close> by simp
  finally show ?thesis .
qed

lemma lab2xyz_xyz2lab: "lab2xyz (xyz2lab t) = t"
proof (cases "t > t3")
  case True
  have t3pos: "0 < t3" by (simp add: t3_def t1_def)
  with True have pos: "0 < t" by simp
  define s where "s = t powr (1 / 3)"
  have cube: "s * s * s = t" unfolding s_def using pos by (rule powr_cube)
  have "s \<ge> 0" by (simp add: s_def)
  have "t1 < s"
  proof (rule ccontr)
    assume "\<not> t1 < s"
    then have "s \<le> t1" by simp
    with \<open>s \<ge> 0\<close> have "s * s * s \<le> t1 * t1 * t1"
      by (intro mult_mono) (simp_all add: t1_def)
    with cube True show False by (simp add: t3_def)
  qed
  with True cube show ?thesis by (simp add: lab2xyz_def xyz2lab_def s_def)
next
  case False
  then have "t / t2 + 4 / 29 \<le> t1"
    by (simp add: t1_def t2_def t3_def field_simps)
  moreover have "t2 \<noteq> 0" by (simp add: t2_def t1_def)
  ultimately show ?thesis using False by (simp add: lab2xyz_def xyz2lab_def)
qed

lemma matrix_error:
  fixes R G B :: real
  assumes "0 \<le> R" "R \<le> 1" "0 \<le> G" "G \<le> 1" "0 \<le> B" "B \<le> 1"
  defines "X \<equiv> 0.4360747 * R + 0.3850649 * G + 0.1430804 * B"
    and "Y \<equiv> 0.2225045 * R + 0.7168786 * G + 0.0606169 * B"
    and "Z \<equiv> 0.0139322 * R + 0.0971045 * G + 0.7141733 * B"
  shows "\<bar>3.1338561 * X - 1.6168667 * Y - 0.4906146 * Z - R\<bar> \<le> 1 / 1000000"
    and "\<bar>- 0.9787684 * X + 1.9161415 * Y + 0.033454 * Z - G\<bar> \<le> 1 / 1000000"
    and "\<bar>0.0719453 * X - 0.2289914 * Y + 1.4052427 * Z - B\<bar> \<le> 1 / 1000000"
  using assms(1-6) unfolding X_def Y_def Z_def abs_le_iff
  by (simp_all add: algebra_simps)

lemma powr_two_fifths_lower:
  fixes u c :: real
  assumes "0 < c" "0 < u" "c ^ 5 \<le> u ^ 2"
  shows "c \<le> u powr (2 / 5)"
proof (rule ccontr)
  assume "\<not> c \<le> u powr (2 / 5)"
  then have "u powr (2 / 5) < c" by simp
  then have "(u powr (2 / 5)) ^ 5 < c ^ 5"
    by (intro power_strict_mono) simp_all
  moreover have "(u powr (2 / 5)) ^ 5 = (u powr (2 / 5)) powr 5"
    by (simp add: powr_numeral)
  moreover have "\<dots> = u powr 2" by (simp add: powr_powr)
  moreover have "\<dots> = u ^ 2" using assms(2) by (simp add: powr_numeral)
  ultimately show False using assms(3) by simp
qed

lemma powr_split: "0 < u \<Longrightarrow> u powr (12 / 5) = u ^ 2 * u powr (2 / 5)" for u :: real
proof -
  assume "0 < u"
  have "u powr (12 / 5) = u powr (2 + 2 / 5)" by simp
  also have "\<dots> = u powr 2 * u powr (2 / 5)" by (simp only: powr_add)
  finally show ?thesis using \<open>0 < u\<close> by (simp add: powr_numeral)
qed

lemma powr_gap:
  fixes a b :: real
  assumes "9 / 100 \<le> a" "a + 18 / 10000 \<le> b"
  shows "a powr (12 / 5) + 1 / 10000 \<le> b powr (12 / 5)"
proof -
  have pos: "0 < a" "0 < b" using assms by simp_all
  have "(37 / 100 :: real) ^ 5 \<le> (9 / 100) ^ 2" by (simp add: power_numeral_reduce)
  also have "\<dots> \<le> a ^ 2" using assms(1) by (intro power_mono) simp_all
  finally have low: "37 / 100 \<le> a powr (2 / 5)"
    using pos by (intro powr_two_fifths_lower) simp_all
  have mono: "a powr (2 / 5) \<le> b powr (2 / 5)"
    using assms pos by (intro powr_mono2) simp_all
  have "b ^ 2 - a ^ 2 = (b - a) * (b + a)" by (simp add: power2_eq_square algebra_simps)
  moreover have "(18 / 10000) * (18 / 100) \<le> (b - a) * (b + a)"
    using assms by (intro mult_mono) simp_all
  ultimately have sq: "324 / 1000000 \<le> b ^ 2 - a ^ 2" by simp
  have "(324 / 1000000) * (37 / 100) \<le> (b ^ 2 - a ^ 2) * a powr (2 / 5)"
    using sq low by (intro mult_mono) simp_all
  also have "\<dots> = b ^ 2 * a powr (2 / 5) - a powr (12 / 5)"
    using pos by (simp only: powr_split [of a] left_diff_distrib)
  also have "\<dots> \<le> b ^ 2 * b powr (2 / 5) - a powr (12 / 5)"
    using mono by (simp add: mult_left_mono)
  also have "\<dots> = b powr (12 / 5) - a powr (12 / 5)"
    using pos by (simp only: powr_split [of b])
  finally show ?thesis by simp
qed

lemma powr_back: "0 < u \<Longrightarrow> (u powr (12 / 5)) powr (5 / 12) = u" for u :: real
  by (simp add: powr_powr)

lemma powr_lower:
  fixes u :: real
  assumes "93 / 1000 \<le> u"
  shows "32 / 10000 \<le> u powr (12 / 5)"
proof -
  have pos: "0 < u" using assms by simp
  have sq: "(93 / 1000) ^ 2 \<le> u ^ 2" using assms by (intro power_mono) simp_all
  have "(37 / 100 :: real) ^ 5 \<le> (93 / 1000) ^ 2" by (simp add: power_numeral_reduce)
  also note sq
  finally have low: "37 / 100 \<le> u powr (2 / 5)"
    using pos by (intro powr_two_fifths_lower) simp_all
  have "(32 / 10000 :: real) \<le> (93 / 1000) ^ 2 * (37 / 100)" by (simp add: power2_eq_square)
  also have "\<dots> \<le> u ^ 2 * u powr (2 / 5)"
    using sq low by (intro mult_mono) simp_all
  finally show ?thesis using pos by (simp only: powr_split)
qed

lemma rgb2lrgb_low: "k \<le> 10 \<Longrightarrow> rgb2lrgb (real k) = real k / 255 / 12.92"
  by (simp add: rgb2lrgb_def Let_def)

lemma rgb2lrgb_high:
  "11 \<le> k \<Longrightarrow> rgb2lrgb (real k) = ((real k / 255 + 0.055) / 1.055) powr (12 / 5)"
  by (simp add: rgb2lrgb_def Let_def)

lemma round_near: "\<bar>x - real k\<bar> < 1 / 2 \<Longrightarrow> round x = int k"
  using round_unique' [of x "int k"] by simp

lemma lrgb2rgb_near:
  assumes "k \<le> 255" and "\<bar>e\<bar> \<le> 1 / 1000000"
  shows "lrgb2rgb (rgb2lrgb (real k) + e) = real k"
proof (cases "k \<le> 10")
  case True
  define x where "x = rgb2lrgb (real k) + e"
  have x: "x = real k / 255 / 12.92 + e"
    using True by (simp add: x_def rgb2lrgb_low)
  have "real k \<le> 10" using True by simp
  then have small: "x \<le> 0.0031308" using assms(2) by (simp add: x abs_le_iff)
  have "255 * (12.92 * x) - real k = (32946 / 10) * e" by (simp add: x algebra_simps)
  moreover have "\<bar>(32946 / 10) * e\<bar> < 1 / 2" using assms(2) by linarith
  ultimately have "\<bar>255 * (12.92 * x) - real k\<bar> < 1 / 2" by (simp only:)
  then have "round (255 * (12.92 * x)) = int k" by (rule round_near)
  then show ?thesis
    using small by (simp add: lrgb2rgb_def Let_def x_def [symmetric])
next
  case False
  then have k: "11 \<le> k" by simp
  define u where "u = (real k / 255 + 0.055) / 1.055"
  define x where "x = rgb2lrgb (real k) + e"
  have R: "rgb2lrgb (real k) = u powr (12 / 5)"
    using k by (simp add: rgb2lrgb_high u_def)
  have "11 \<le> real k" "real k \<le> 255" using k assms(1) by simp_all
  then have u: "93 / 1000 \<le> u" "u \<le> 1" by (simp_all add: u_def field_simps)
  have kval: "real k = 255 * (1.055 * u - 0.055)" by (simp add: u_def field_simps)
  from u have "(u - 18 / 10000) powr (12 / 5) + 1 / 10000 \<le> u powr (12 / 5)"
    by (intro powr_gap) simp_all
  then have lo: "(u - 18 / 10000) powr (12 / 5) < x"
    using assms(2) by (simp add: x_def R abs_le_iff)
  from u have "u powr (12 / 5) + 1 / 10000 \<le> (u + 18 / 10000) powr (12 / 5)"
    by (intro powr_gap) simp_all
  then have hi: "x < (u + 18 / 10000) powr (12 / 5)"
    using assms(2) by (simp add: x_def R abs_le_iff)
  from powr_lower [OF u(1)] have big: "\<not> x \<le> 0.0031308"
    using assms(2) by (simp add: x_def R abs_le_iff)
  then have xpos: "0 < x" by simp
  have "((u - 18 / 10000) powr (12 / 5)) powr (5 / 12) < x powr (5 / 12)"
    using lo by (intro powr_less_mono2) simp_all
  then have wlo: "u - 18 / 10000 < x powr (5 / 12)"
    using u by (simp add: powr_back)
  have "x powr (5 / 12) < ((u + 18 / 10000) powr (12 / 5)) powr (5 / 12)"
    using hi xpos by (intro powr_less_mono2) simp_all
  then have whi: "x powr (5 / 12) < u + 18 / 10000"
    using u by (simp add: powr_back)
  have "255 * (1.055 * x powr (5 / 12) - 0.055) - real k = (10761 / 40) * (x powr (5 / 12) - u)"
    by (simp add: kval algebra_simps)
  moreover have "\<bar>(10761 / 40) * (w - u)\<bar> < 1 / 2"
    if "u - 18 / 10000 < w" "w < u + 18 / 10000" for w :: real
    using that unfolding abs_less_iff right_diff_distrib by linarith
  from this [OF wlo whi] have "\<bar>(10761 / 40) * (x powr (5 / 12) - u)\<bar> < 1 / 2" .
  ultimately have "\<bar>255 * (1.055 * x powr (5 / 12) - 0.055) - real k\<bar> < 1 / 2"
    by (simp only:)
  then have "round (255 * (1.055 * x powr (5 / 12) - 0.055)) = int k" by (rule round_near)
  then show ?thesis
    using big by (simp add: lrgb2rgb_def Let_def x_def [symmetric])
qed

lemma rgb2lrgb_range:
  assumes "k \<le> 255"
  shows "0 \<le> rgb2lrgb (real k) \<and> rgb2lrgb (real k) \<le> 1"
proof (cases "k \<le> 10")
  case True
  then have "real k \<le> 10" by simp
  then show ?thesis using True by (simp add: rgb2lrgb_low)
next
  case False
  then have k: "11 \<le> k" by simp
  define u where "u = (real k / 255 + 0.055) / 1.055"
  have "real k \<le> 255" using assms by simp
  then have u: "0 \<le> u" "u \<le> 1" by (simp_all add: u_def field_simps)
  have R: "rgb2lrgb (real k) = u powr (12 / 5)"
    using k by (simp add: rgb2lrgb_high u_def)
  have "u powr (12 / 5) \<le> 1 powr (12 / 5)"
    using u by (intro powr_mono2) simp_all
  then show ?thesis unfolding R by simp
qed

lemma rgbToLab_eq:
  fixes c :: RGB
  defines "R \<equiv> rgb2lrgb (rgb_r c)" and "G \<equiv> rgb2lrgb (rgb_g c)" and "B \<equiv> rgb2lrgb (rgb_b c)"
  defines "X \<equiv> 0.4360747 * R + 0.3850649 * G + 0.1430804 * B"
    and "Y \<equiv> 0.2225045 * R + 0.7168786 * G + 0.0606169 * B"
    and "Z \<equiv> 0.0139322 * R + 0.0971045 * G + 0.7141733 * B"
  shows "rgbToLab c =
     \<lparr>lab_l = 116 * xyz2lab Y - 16,
      lab_a = 500 * (xyz2lab (X / 0.96422) - xyz2lab Y),
      lab_b = 200 * (xyz2lab Y - xyz2lab (Z / 0.82521))\<rparr>"
proof (cases "R = G \<and> G = B")
  case True
  then have "X / 0.96422 = Y" "Z / 0.82521 = Y"
    by (simp_all add: X_def Y_def Z_def)
  then have e: "xyz2lab (X / 0.96422) = xyz2lab Y" "xyz2lab (Z / 0.82521) = xyz2lab Y"
    by (simp_all only:)
  show ?thesis
    unfolding rgbToLab_def Let_def R_def [symmetric] G_def [symmetric] B_def [symmetric]
      X_def [symmetric] Y_def [symmetric] Z_def [symmetric] e if_P [OF True]
    by (rule refl)
next
  case False
  show ?thesis
    unfolding rgbToLab_def Let_def R_def [symmetric] G_def [symmetric] B_def [symmetric]
      X_def [symmetric] Y_def [symmetric] Z_def [symmetric] if_not_P [OF False]
    by (rule refl)
qed

lemma labToRgb_eq:
  "labToRgb \<lparr>lab_l = 116 * xyz2lab Y - 16,
             lab_a = 500 * (xyz2lab X' - xyz2lab Y),
             lab_b = 200 * (xyz2lab Y - xyz2lab Z')\<rparr> =
   \<lparr>rgb_r = lrgb2rgb (3.1338561 * (0.96422 * X') - 1.6168667 * Y - 0.4906146 * (0.82521 * Z')),
    rgb_g = lrgb2rgb (- 0.9787684 * (0.96422 * X') + 1.9161415 * Y + 0.033454 * (0.82521 * Z')),
    rgb_b = lrgb2rgb (0.0719453 * (0.96422 * X') - 0.2289914 * Y + 1.4052427 * (0.82521 * Z'))\<rparr>"
proof -
  have "(116 * xyz2lab Y - 16 + 16) / 116 = xyz2lab Y" by simp
  moreover have "xyz2lab Y + 500 * (xyz2lab X' - xyz2lab Y) / 500 = xyz2lab X'" by argo
  moreover have "xyz2lab Y - 200 * (xyz2lab Y - xyz2lab Z') / 200 = xyz2lab Z'" by argo
  ultimately show ?thesis
    unfolding labToRgb_def Let_def by (simp only: Lab.simps lab2xyz_xyz2lab)
qed

lemma labToRgb_rgbToLab:
  assumes "r \<le> 255" "g \<le> 255" "b \<le> 255"
  shows "labToRgb (rgbToLab \<lparr>rgb_r = real r, rgb_g = real g, rgb_b = real b\<rparr>) =
     \<lparr>rgb_r = real r, rgb_g = real g, rgb_b = real b\<rparr>"
proof -
  define R where "R = rgb2lrgb (real r)"
  define G where "G = rgb2lrgb (real g)"
  define B where "B = rgb2lrgb (real b)"
  define X where "X = 0.4360747 * R + 0.3850649 * G + 0.1430804 * B"
  define Y where "Y = 0.2225045 * R + 0.7168786 * G + 0.0606169 * B"
  define Z where "Z = 0.0139322 * R + 0.0971045 * G + 0.7141733 * B"
  have range: "0 \<le> R" "R \<le> 1" "0 \<le> G" "G \<le> 1" "0 \<le> B" "B \<le> 1"
    using assms rgb2lrgb_range by (simp_all add: R_def G_def B_def)
  have lab: "rgbToLab \<lparr>rgb_r = real r, rgb_g = real g, rgb_b = real b\<rparr> =
     \<lparr>lab_l = 116 * xyz2lab Y - 16,
      lab_a = 500 * (xyz2lab (X / 0.96422) - xyz2lab Y),
      lab_b = 200 * (xyz2lab Y - xyz2lab (Z / 0.82521))\<rparr>"
    unfolding rgbToLab_eq X_def Y_def Z_def R_def G_def B_def by simp
  have undo: "0.96422 * (X / 0.96422) = X" "0.82521 * (Z / 0.82521) = Z" by simp_all
  from matrix_error [OF range]
  have er: "\<bar>3.1338561 * X - 1.6168667 * Y - 0.4906146 * Z - R\<bar> \<le> 1 / 1000000"
    and eg: "\<bar>- 0.9787684 * X + 1.9161415 * Y + 0.033454 * Z - G\<bar> \<le> 1 / 1000000"
    and eb: "\<bar>0.0719453 * X - 0.2289914 * Y + 1.4052427 * Z - B\<bar> \<le> 1 / 1000000"
    unfolding X_def Y_def Z_def by simp_all
  have near: "lrgb2rgb v = real k"
    if "k \<le> 255" "\<bar>v - rgb2lrgb (real k)\<bar> \<le> 1 / 1000000" for v k
    using lrgb2rgb_near [OF that] by simp
  have "lrgb2rgb (3.1338561 * X - 1.6168667 * Y - 0.4906146 * Z) = real r"
    using assms(1) er unfolding R_def by (rule near)
  moreover have "lrgb2rgb (- 0.9787684 * X + 1.9161415 * Y + 0.033454 * Z) = real g"
    using assms(2) eg unfolding G_def by (rule near)
  moreover have "lrgb2rgb (0.0719453 * X - 0.2289914 * Y + 1.4052427 * Z) = real b"
    using assms(3) eb unfolding B_def by (rule near)
  ultimately show ?thesis
    unfolding lab labToRgb_eq undo by (simp only:)
qed

text \<open>
  C3. For every colour whose channels are whole numbers from \<open>0\<close> to \<open>255\<close>, converting to
  Lab and back changes no channel by more than \<open>1\<close>. (With exact real arithmetic, as here,
  the round trip returns the colour itself; the rounding errors of floating-point
  arithmetic are outside this embedding.)
\<close>

theorem lab_round_trip_within_one:
  assumes "r \<le> 255" and "g \<le> 255" and "b \<le> 255"
  shows "\<bar>rgb_r (labToRgb (rgbToLab \<lparr>rgb_r = real r, rgb_g = real g, rgb_b = real b\<rparr>)) - real r\<bar> \<le> 1 \<and>
     \<bar>rgb_g (labToRgb (rgbToLab \<lparr>rgb_r = real r, rgb_g = real g, rgb_b = real b\<rparr>)) - real g\<bar> \<le> 1 \<and>
     \<bar>rgb_b (labToRgb (rgbToLab \<lparr>rgb_r = real r, rgb_g = real g, rgb_b = real b\<rparr>)) - real b\<bar> \<le> 1"
  by (simp add: labToRgb_rgbToLab [OF assms])

theorem lab_round_trip_within_one_witness:
  "\<bar>rgb_r (labToRgb (rgbToLab \<lparr>rgb_r = 200, rgb_g = 11, rgb_b = 0\<rparr>)) - 200\<bar> \<le> 1 \<and>
   \<bar>rgb_g (labToRgb (rgbToLab \<lparr>rgb_r = 200, rgb_g = 11, rgb_b = 0\<rparr>)) - 11\<bar> \<le> 1 \<and>
   \<bar>rgb_b (labToRgb (rgbToLab \<lparr>rgb_r = 200, rgb_g = 11, rgb_b = 0\<rparr>)) - 0\<bar> \<le> 1"
  using lab_round_trip_within_one [of 200 11 0] by simp

section \<open>Properties of the palette pairing\<close>

lemma createDistanceMatrix_nth:
  "i < length A \<Longrightarrow> j < length B \<Longrightarrow> createDistanceMatrix A B ! i ! j = colorDistance (A ! i) (B ! j)"
  by (simp add: createDistanceMatrix_def)

lemma createDistanceMatrix_empty: "createDistanceMatrix A B = [] \<longleftrightarrow> A = []"
  by (simp add: createDistanceMatrix_def)

lemma createDistanceMatrix_size:
  assumes "A \<noteq> []"
  shows "length (createDistanceMatrix A B) = length A"
    and "length (hd (createDistanceMatrix A B)) = length B"
proof -
  show "length (createDistanceMatrix A B) = length A"
    by (simp add: createDistanceMatrix_def)
  from assms have "[0..<length A] = 0 # [1..<length A]"
    by (simp add: upt_conv_Cons)
  then show "length (hd (createDistanceMatrix A B)) = length B"
    by (simp add: createDistanceMatrix_def)
qed

lemma totalCost_pairingCost:
  "\<forall>(i, j)\<in>set res. i < length A \<and> j < length B \<Longrightarrow>
   totalCost (createDistanceMatrix A B) res = pairingCost A B res"
  unfolding totalCost_def pairingCost_def
  by (rule arg_cong [where f = sum_list], rule map_cong) (auto simp: createDistanceMatrix_nth)

lemma all_rows:
  assumes "sorted xs" "distinct xs" "length xs = m" "\<forall>x\<in>set xs. x < m"
  shows "xs = [0..<m]"
proof -
  have "set xs \<subseteq> {0..<m}" using assms(4) by auto
  moreover have "card (set xs) = card {0..<m}"
    using assms(2,3) by (simp add: distinct_card)
  ultimately have "set xs = {0..<m}" by (intro card_subset_eq) simp_all
  then have "set xs = set [0..<m]" by simp
  with assms(1,2) show ?thesis
    by (intro sorted_distinct_set_unique) simp_all
qed

lemma pairingCost_output:
  assumes "out = map (\<lambda>result. B ! snd result) res"
  shows "pairingCost A B res = (\<Sum>k = 0..<length out. colorDistance (A ! fst (res ! k)) (out ! k))"
proof -
  let ?g = "\<lambda>r. colorDistance (A ! fst r) (B ! snd r)"
  let ?g' = "\<lambda>k. ?g (res ! k)"
  have "map (\<lambda>(i, j). colorDistance (A ! i) (B ! j)) res = map ?g res"
    by (rule map_cong) (simp_all add: case_prod_beta)
  also have "\<dots> = map (\<lambda>k. ?g (res ! k)) [0..<length res]"
    by (rule nth_equalityI) simp_all
  finally have "pairingCost A B res = sum_list (map (\<lambda>k. ?g (res ! k)) [0..<length res])"
    by (simp only: pairingCost_def)
  also have "\<dots> = (\<Sum>k = 0..<length res. ?g (res ! k))"
    using sum_set_upt_conv_sum_list_nat [of ?g' 0 "length res"] by simp
  also have "\<dots> = (\<Sum>k = 0..<length out. colorDistance (A ! fst (res ! k)) (out ! k))"
    by (rule sum.cong) (simp_all add: assms)
  finally show ?thesis .
qed

lemma sortColorsByPairing_result:
  assumes "munkres (createDistanceMatrix A B) = Inr res"
    and "optimalAssignment (createDistanceMatrix A B) (length A) (length B) res"
  defines "out \<equiv> map (\<lambda>result. B ! snd result) res"
  shows "sortColorsByPairing munkres A B = Inr out"
    and "length out = min (length A) (length B)"
    and "set out \<subseteq> set B"
    and "\<forall>k<length out. fst (res ! k) < length A \<and> snd (res ! k) < length B \<and>
           out ! k = B ! snd (res ! k)"
    and "\<forall>res'. assignment (length A) (length B) res' \<longrightarrow>
           (\<Sum>k = 0..<length out. colorDistance (A ! fst (res ! k)) (out ! k)) \<le> pairingCost A B res'"
    and "length A \<le> length B \<and> sorted (map fst res) \<longrightarrow>
           length out = length A \<and> (\<forall>i<length A. fst (res ! i) = i \<and> out ! i = B ! snd (res ! i))"
proof -
  from assms(2) have asg: "assignment (length A) (length B) res"
    and opt: "\<And>r. assignment (length A) (length B) r \<Longrightarrow>
      totalCost (createDistanceMatrix A B) res \<le> totalCost (createDistanceMatrix A B) r"
    by (simp_all add: optimalAssignment_def)
  from asg have len: "length res = min (length A) (length B)"
    and dst: "distinct (map fst res)"
    and rng: "\<forall>(i, j)\<in>set res. i < length A \<and> j < length B"
    by (simp_all add: assignment_def)
  have inr: "fst (res ! k) < length A \<and> snd (res ! k) < length B" if "k < length res" for k
  proof -
    from that have "res ! k \<in> set res" by simp
    with rng show ?thesis by (auto simp: case_prod_beta)
  qed
  show "sortColorsByPairing munkres A B = Inr out"
    by (simp add: sortColorsByPairing_def Let_def assms(1) out_def)
  show l: "length out = min (length A) (length B)"
    by (simp add: out_def len)
  show "set out \<subseteq> set B"
    using rng by (auto simp: out_def)
  show "\<forall>k<length out. fst (res ! k) < length A \<and> snd (res ! k) < length B \<and>
           out ! k = B ! snd (res ! k)"
    using inr by (simp add: out_def)
  show "\<forall>res'. assignment (length A) (length B) res' \<longrightarrow>
      (\<Sum>k = 0..<length out. colorDistance (A ! fst (res ! k)) (out ! k)) \<le> pairingCost A B res'"
  proof (intro allI impI)
    fix res' assume a: "assignment (length A) (length B) res'"
    then have "\<forall>(i, j)\<in>set res'. i < length A \<and> j < length B"
      by (simp add: assignment_def)
    then have "pairingCost A B res \<le> pairingCost A B res'"
      using opt [OF a] rng by (simp add: totalCost_pairingCost)
    then show "(\<Sum>k = 0..<length out. colorDistance (A ! fst (res ! k)) (out ! k))
        \<le> pairingCost A B res'"
      using pairingCost_output [of out B res A] by (simp add: out_def)
  qed
  show "length A \<le> length B \<and> sorted (map fst res) \<longrightarrow>
      length out = length A \<and> (\<forall>i<length A. fst (res ! i) = i \<and> out ! i = B ! snd (res ! i))"
  proof (intro impI, elim conjE)
    assume le: "length A \<le> length B" and srt: "sorted (map fst res)"
    from le len have lr: "length res = length A" by simp
    have "map fst res = [0..<length A]"
      using srt dst lr rng by (intro all_rows) auto
    then have "fst (res ! i) = i" if "i < length A" for i
      using that lr by (metis nth_map nth_upt add_0)
    then show "length out = length A \<and>
        (\<forall>i<length A. fst (res ! i) = i \<and> out ! i = B ! snd (res ! i))"
      using lr by (simp add: out_def)
  qed
qed

lemma colorDistance_self: "colorDistance c c = 0"
  by (simp add: colorDistance_def)

lemma colorDistance_nonneg: "0 \<le> colorDistance c d"
  by (simp add: colorDistance_def Let_def)

lemma pairingCost_nonneg: "0 \<le> pairingCost A B res"
  unfolding pairingCost_def
  by (rule sum_list_nonneg) (auto simp: colorDistance_nonneg)

lemma zero_cost_optimal:
  assumes "assignment (length A) (length B) res" and "pairingCost A B res = 0"
  shows "optimalAssignment (createDistanceMatrix A B) (length A) (length B) res"
proof -
  have inrange: "\<forall>(i, j)\<in>set r. i < length A \<and> j < length B"
    if "assignment (length A) (length B) r" for r
    using that by (simp add: assignment_def)
  have "totalCost (createDistanceMatrix A B) res \<le> totalCost (createDistanceMatrix A B) r"
    if "assignment (length A) (length B) r" for r
  proof -
    have "totalCost (createDistanceMatrix A B) res = pairingCost A B res"
      using inrange [OF assms(1)] by (rule totalCost_pairingCost)
    moreover have "totalCost (createDistanceMatrix A B) r = pairingCost A B r"
      using inrange [OF that] by (rule totalCost_pairingCost)
    ultimately show ?thesis
      using assms(2) pairingCost_nonneg [of A B r] by simp
  qed
  with assms(1) show ?thesis by (simp add: optimalAssignment_def)
qed

lemma solverContract_nonempty:
  assumes "A \<noteq> []" and "munkres (createDistanceMatrix A B) = Inr res"
    and "optimalAssignment (createDistanceMatrix A B) (length A) (length B) res"
  shows "solverContract munkres (createDistanceMatrix A B)"
  using assms
  by (simp add: solverContract_def createDistanceMatrix_empty createDistanceMatrix_size)

text \<open>
  C2, as the code has it, for a solver that meets the contract above on the distance
  matrix. With an empty \<open>A\<close> the matrix is empty, the solver fails and so does
  \<open>sortColorsByPairing\<close>. With a non-empty \<open>A\<close> the result lists \<^verbatim>\<open>colors2[column]\<close> for the
  pairs of the answer in the order of the answer: it has \<open>min M N\<close> entries, all taken from
  \<open>B\<close>, entry \<open>k\<close> being the partner of the \<open>A\<close>-index of the \<open>k\<close>-th pair; and the total Lab
  distance between these \<open>A\<close>-entries and the entries of the result is least among all
  one-to-one matchings of \<open>min M N\<close> pairs. When \<open>M \<le> N\<close> and the answer lists its pairs by
  ascending row, the result has \<open>M\<close> entries and entry \<open>i\<close> is the partner of \<open>A\<close>'s index \<open>i\<close>.
\<close>

theorem sortColorsByPairing_optimal:
  assumes "solverContract munkres (createDistanceMatrix A B)"
  shows "(A = [] \<longrightarrow> (\<exists>e. sortColorsByPairing munkres A B = Inl e)) \<and>
     (A \<noteq> [] \<longrightarrow>
        (\<exists>res out.
           munkres (createDistanceMatrix A B) = Inr res \<and>
           sortColorsByPairing munkres A B = Inr out \<and>
           length out = min (length A) (length B) \<and>
           set out \<subseteq> set B \<and>
           (\<forall>k<length out. fst (res ! k) < length A \<and> snd (res ! k) < length B \<and>
              out ! k = B ! snd (res ! k)) \<and>
           (\<forall>res'. assignment (length A) (length B) res' \<longrightarrow>
              (\<Sum>k = 0..<length out. colorDistance (A ! fst (res ! k)) (out ! k))
                \<le> pairingCost A B res') \<and>
           (length A \<le> length B \<and> sorted (map fst res) \<longrightarrow>
              length out = length A \<and>
              (\<forall>i<length A. fst (res ! i) = i \<and> out ! i = B ! snd (res ! i)))))"
proof (cases "A = []")
  case True
  then have "createDistanceMatrix A B = []" by (simp add: createDistanceMatrix_empty)
  with assms obtain e where "munkres (createDistanceMatrix A B) = Inl e"
    by (auto simp: solverContract_def)
  then have "sortColorsByPairing munkres A B = Inl e"
    by (simp add: sortColorsByPairing_def)
  with True show ?thesis by blast
next
  case False
  then have "createDistanceMatrix A B \<noteq> []" by (simp add: createDistanceMatrix_empty)
  with assms obtain res where res: "munkres (createDistanceMatrix A B) = Inr res"
    and o: "optimalAssignment (createDistanceMatrix A B) (length (createDistanceMatrix A B))
           (length (hd (createDistanceMatrix A B))) res"
    by (auto simp: solverContract_def)
  have opt: "optimalAssignment (createDistanceMatrix A B) (length A) (length B) res"
    using o unfolding createDistanceMatrix_size [OF False] .
  from sortColorsByPairing_result
    [where munkres = munkres and A = A and B = B and res = res, OF res opt] res False
  show ?thesis by blast
qed

theorem sortColorsByPairing_optimal_witness:
  "sortColorsByPairing (\<lambda>m. if m = [] then Inl () else Inr [(0, 0)])
     [\<lparr>rgb_r = 0, rgb_g = 0, rgb_b = 0\<rparr>]
     [\<lparr>rgb_r = 0, rgb_g = 0, rgb_b = 0\<rparr>, \<lparr>rgb_r = 255, rgb_g = 255, rgb_b = 255\<rparr>] =
     Inr [\<lparr>rgb_r = 0, rgb_g = 0, rgb_b = 0\<rparr>] \<and>
   sortColorsByPairing (\<lambda>m. if m = [] then Inl () else Inr [(0, 0)]) []
     [\<lparr>rgb_r = 0, rgb_g = 0, rgb_b = 0\<rparr>] = Inl ()"
proof -
  let ?k = "\<lparr>rgb_r = 0, rgb_g = 0, rgb_b = 0\<rparr>"
  let ?w = "\<lparr>rgb_r = 255, rgb_g = 255, rgb_b = 255\<rparr>"
  let ?mk = "\<lambda>m :: real list list. if m = [] then Inl () else (Inr [(0, 0)] :: unit + (nat \<times> nat) list)"
  have ne: "[?k] \<noteq> []" by simp
  have mk: "?mk (createDistanceMatrix [?k] [?k, ?w]) = Inr [(0, 0)]"
    by (simp add: createDistanceMatrix_empty)
  have "assignment (length [?k]) (length [?k, ?w]) [(0, 0)]"
    by (simp add: assignment_def)
  moreover have "pairingCost [?k] [?k, ?w] [(0, 0)] = 0"
    by (simp add: pairingCost_def colorDistance_self)
  ultimately have "optimalAssignment (createDistanceMatrix [?k] [?k, ?w])
      (length [?k]) (length [?k, ?w]) [(0, 0)]"
    by (rule zero_cost_optimal)
  with ne mk have c1: "solverContract ?mk (createDistanceMatrix [?k] [?k, ?w])"
    by (rule solverContract_nonempty)
  from sortColorsByPairing_optimal
    [where munkres = ?mk and A = "[?k]" and B = "[?k, ?w]", OF c1] ne
  obtain res out where
    r: "?mk (createDistanceMatrix [?k] [?k, ?w]) = Inr res"
    and o: "sortColorsByPairing ?mk [?k] [?k, ?w] = Inr out"
    and l: "length out = min (length [?k]) (length [?k, ?w])"
    and n: "\<forall>k<length out. fst (res ! k) < length [?k] \<and> snd (res ! k) < length [?k, ?w] \<and>
              out ! k = [?k, ?w] ! snd (res ! k)"
    by blast
  from r mk have "res = [(0, 0)]" by simp
  with n l have "out ! 0 = ?k" by simp
  with l have "out = [?k]" by (cases out) simp_all
  with o have first: "sortColorsByPairing ?mk [?k] [?k, ?w] = Inr [?k]" by simp
  have c2: "solverContract ?mk (createDistanceMatrix [] [?k])"
    by (simp add: solverContract_def createDistanceMatrix_empty)
  from sortColorsByPairing_optimal [where munkres = ?mk and A = "[]" and B = "[?k]", OF c2]
  have "\<exists>e. sortColorsByPairing ?mk [] [?k] = Inl e" by blast
  then have "sortColorsByPairing ?mk [] [?k] = Inl ()" by auto
  with first show ?thesis by (rule conjI)
qed

text \<open>
  C2, as the specification states it, fails when \<open>A\<close> is longer than \<open>B\<close>: with two
  colours in \<open>A\<close> and one in \<open>B\<close>, the answer \<open>[(0, 0)]\<close> is a least-cost matching of
  \<open>min 2 1\<close> pairs, and the result has one entry, not two.
\<close>

theorem sortColorsByPairing_length_counterexample:
  "solverContract (\<lambda>m. if m = [] then Inl () else Inr [(0, 0)])
     (createDistanceMatrix
        [\<lparr>rgb_r = 0, rgb_g = 0, rgb_b = 0\<rparr>, \<lparr>rgb_r = 255, rgb_g = 255, rgb_b = 255\<rparr>]
        [\<lparr>rgb_r = 0, rgb_g = 0, rgb_b = 0\<rparr>]) \<and>
   sortColorsByPairing (\<lambda>m. if m = [] then Inl () else Inr [(0, 0)])
     [\<lparr>rgb_r = 0, rgb_g = 0, rgb_b = 0\<rparr>, \<lparr>rgb_r = 255, rgb_g = 255, rgb_b = 255\<rparr>]
     [\<lparr>rgb_r = 0, rgb_g = 0, rgb_b = 0\<rparr>] = Inr [\<lparr>rgb_r = 0, rgb_g = 0, rgb_b = 0\<rparr>] \<and>
   length [\<lparr>rgb_r = 0, rgb_g = 0, rgb_b = 0\<rparr>] \<noteq>
   length [\<lparr>rgb_r = 0, rgb_g = 0, rgb_b = 0\<rparr>, \<lparr>rgb_r = 255, rgb_g = 255, rgb_b = 255\<rparr>]"
proof -
  let ?k = "\<lparr>rgb_r = 0, rgb_g = 0, rgb_b = 0\<rparr>"
  let ?w = "\<lparr>rgb_r = 255, rgb_g = 255, rgb_b = 255\<rparr>"
  let ?mk = "\<lambda>m :: real list list. if m = [] then Inl () else (Inr [(0, 0)] :: unit + (nat \<times> nat) list)"
  have ne: "[?k, ?w] \<noteq> []" by simp
  have mk: "?mk (createDistanceMatrix [?k, ?w] [?k]) = Inr [(0, 0)]"
    by (simp add: createDistanceMatrix_empty)
  have "assignment (length [?k, ?w]) (length [?k]) [(0, 0)]"
    by (simp add: assignment_def)
  moreover have "pairingCost [?k, ?w] [?k] [(0, 0)] = 0"
    by (simp add: pairingCost_def colorDistance_self)
  ultimately have "optimalAssignment (createDistanceMatrix [?k, ?w] [?k])
      (length [?k, ?w]) (length [?k]) [(0, 0)]"
    by (rule zero_cost_optimal)
  with ne mk have "solverContract ?mk (createDistanceMatrix [?k, ?w] [?k])"
    by (rule solverContract_nonempty)
  moreover have "sortColorsByPairing ?mk [?k, ?w] [?k] = Inr [?k]"
    by (simp add: sortColorsByPairing_def mk)
  moreover have "length [?k] \<noteq> length [?k, ?w]" by simp
  ultimately show ?thesis by (intro conjI)
qed

end
